theory Spec2Isabelle
  imports Main "HOL-Library.Word"
begin

unbundle bit_operations_syntax

section \<open>Go values used by the codec\<close>

text \<open>
  The two source files (\<^verbatim>\<open>pbm.go\<close> and the PGM file, which repeats the \<^verbatim>\<open>PBM\<close> struct and its
  \<^verbatim>\<open>Save\<close>) are embedded function by function, for a 64-bit platform (\<^verbatim>\<open>linux/amd64\<close>). A Go
  \<^verbatim>\<open>int\<close> is an \<^typ>\<open>int\<close>: the differences and quotients of the source are those of a loop
  counter and the bound of its loop, and lie between the two; the one sum that could leave
  the 64 bits of an \<^verbatim>\<open>int\<close>, \<^verbatim>\<open>width+7\<close> in \<^verbatim>\<open>parseP4Line\<close>, is written with its wrap-around. A
  \<^verbatim>\<open>uint8\<close> is an 8-bit word, a \<^verbatim>\<open>string\<close> a list of bytes (\<^typ>\<open>char\<close>), a slice a list. A
  \<^verbatim>\<open>nil\<close> slice is the empty list: the source only takes lengths, ranges and elements of
  slices, which do not tell them apart. Rows are allocated one \<^verbatim>\<open>make\<close> each, so no two rows
  share storage and an image is a value.

  A run of the source either returns or panics; a function that can fail returns
  \<^verbatim>\<open>error + 'a\<close>, with \<open>Inl\<close> for the \<^verbatim>\<open>error\<close> value returned or the run-time panic.
\<close>

datatype error =
  New string          \<comment> \<open>\<^verbatim>\<open>errors.New(msg)\<close>\<close>
| OsError             \<comment> \<open>the error of \<^verbatim>\<open>os.Open\<close> or \<^verbatim>\<open>os.Create\<close>\<close>
| PanicIndex          \<comment> \<open>run-time panic: index out of range\<close>
| PanicMakeslice      \<comment> \<open>run-time panic: makeslice: len out of range\<close>

type_synonym uint8 = "8 word"

definition and_then :: "error + 'a \<Rightarrow> ('a \<Rightarrow> error + 'b) \<Rightarrow> error + 'b" where
  "and_then r f = (case r of Inl e \<Rightarrow> Inl e | Inr x \<Rightarrow> f x)"

text \<open>
  \<^verbatim>\<open>int\<close> arithmetic wraps around in two's complement on 64 bits.
\<close>

definition wrap :: "int \<Rightarrow> int" where
  "wrap x = (x + 2 ^ 63) mod 2 ^ 64 - 2 ^ 63"

text \<open>
  \<^verbatim>\<open>make([]T, n)\<close> is \<^verbatim>\<open>runtime.makeslice\<close>: it panics with \<^verbatim>\<open>len out of range\<close> when \<open>n\<close> is
  negative, or when the \<open>n\<close> elements take more than \<^verbatim>\<open>maxAlloc\<close> bytes (the product
  overflowing included), and returns \<open>n\<close> zero values otherwise. \<^verbatim>\<open>maxAlloc\<close> is \<open>2 ^ 48\<close> on
  the platform, where a \<^verbatim>\<open>bool\<close> and a \<^verbatim>\<open>uint8\<close> take one byte and a slice (the element of a
  slice of rows) three words, 24 bytes. The first argument of \<open>make_slice\<close> is that size of
  an element. An allocation within the limit is taken to succeed: whether the machine has
  the memory is, like the fate of a write to a file, not decided by the program.
\<close>

definition maxAlloc :: int where
  "maxAlloc = 2 ^ 48"

abbreviation (input) size_bool :: int where
  "size_bool \<equiv> 1"

abbreviation (input) size_uint8 :: int where
  "size_uint8 \<equiv> 1"

abbreviation (input) size_slice :: int where
  "size_slice \<equiv> 24"

definition make_slice :: "int \<Rightarrow> int \<Rightarrow> 'a \<Rightarrow> error + 'a list" where
  "make_slice size' n zero =
     (if n < 0 \<or> maxAlloc < size' * n then Inl PanicMakeslice
      else Inr (replicate (nat n) zero))"

text \<open>\<^verbatim>\<open>xs[i]\<close> as a value and \<^verbatim>\<open>xs[i] = v\<close>, with the bounds check of the run time.\<close>

definition index :: "'a list \<Rightarrow> int \<Rightarrow> error + 'a" where
  "index xs i = (if 0 \<le> i \<and> i < int (length xs) then Inr (xs ! nat i) else Inl PanicIndex)"

definition store :: "'a list \<Rightarrow> int \<Rightarrow> 'a \<Rightarrow> error + 'a list" where
  "store xs i v = (if 0 \<le> i \<and> i < int (length xs) then Inr (xs[nat i := v]) else Inl PanicIndex)"

text \<open>\<^verbatim>\<open>d[i][j]\<close> and \<^verbatim>\<open>d[i][j] = v\<close> on a slice of slices.\<close>

definition index2 :: "'a list list \<Rightarrow> int \<Rightarrow> int \<Rightarrow> error + 'a" where
  "index2 d i j = and_then (index d i) (\<lambda>row. index row j)"

definition store2 :: "'a list list \<Rightarrow> int \<Rightarrow> int \<Rightarrow> 'a \<Rightarrow> error + 'a list list" where
  "store2 d i j v =
     and_then (index d i) (\<lambda>row. and_then (store row j v) (\<lambda>row'. store d i row'))"

text \<open>
  A loop over a sequence of values threads the state through the body, and a panic in the
  body ends it. \<^verbatim>\<open>for i := 0; i < n; i++ { body }\<close>, for a body that leaves \<open>n\<close> alone, and
  \<^verbatim>\<open>for i := range xs\<close> with \<open>n = len(xs)\<close>, give the counter the values of \<open>count_up n\<close>.
\<close>

definition count_up :: "int \<Rightarrow> int list" where
  "count_up n = map int [0..<nat n]"

fun for_each :: "'a list \<Rightarrow> ('a \<Rightarrow> 's \<Rightarrow> error + 's) \<Rightarrow> 's \<Rightarrow> error + 's" where
  "for_each [] body s = Inr s"
| "for_each (i # is) body s =
     (case body i s of Inl e \<Rightarrow> Inl e | Inr s' \<Rightarrow> for_each is body s')"

text \<open>Go's \<^verbatim>\<open>/\<close> on \<^verbatim>\<open>int\<close> truncates towards zero.\<close>

definition quo :: "int \<Rightarrow> int \<Rightarrow> int" where
  "quo a b = sgn a * sgn b * (\<bar>a\<bar> div \<bar>b\<bar>)"

section \<open>Go library functions the decoders and encoders call\<close>

subsection \<open>The runes of a string\<close>

text \<open>
  \<^verbatim>\<open>for i, char := range line\<close> decodes UTF-8: \<open>i\<close> is the byte offset at which a rune starts
  and \<open>char\<close> its code point; a byte that starts no valid encoding is the rune \<open>RuneError\<close>
  of width 1. Bytes and code points are natural numbers here; \<open>b mod 32 * 64\<close> is
  \<^verbatim>\<open>(b & 0x1F) << 6\<close>, and the \<^verbatim>\<open>|\<close> of disjoint bit fields is a sum.
\<close>

definition RuneError :: nat where
  "RuneError = 0xFFFD"

definition byte :: "char \<Rightarrow> nat" where
  "byte c = of_char c"

definition cont :: "char \<Rightarrow> bool" where
  "cont c \<longleftrightarrow> 0x80 \<le> byte c \<and> byte c \<le> 0xBF"

definition decoderune :: "string \<Rightarrow> nat \<times> nat" where
  "decoderune s =
     (case s of
        [] \<Rightarrow> (RuneError, 1)
      | c0 # s1 \<Rightarrow>
          if byte c0 < 0x80 then (byte c0, 1)
          else if 0xC0 \<le> byte c0 \<and> byte c0 < 0xE0 then
            (case s1 of
               c1 # _ \<Rightarrow>
                 (let r = byte c0 mod 32 * 64 + byte c1 mod 64
                  in if cont c1 \<and> 0x7F < r then (r, 2) else (RuneError, 1))
             | _ \<Rightarrow> (RuneError, 1))
          else if 0xE0 \<le> byte c0 \<and> byte c0 < 0xF0 then
            (case s1 of
               c1 # c2 # _ \<Rightarrow>
                 (let r = byte c0 mod 16 * 4096 + byte c1 mod 64 * 64 + byte c2 mod 64
                  in if cont c1 \<and> cont c2 \<and> 0x7FF < r \<and> \<not> (0xD800 \<le> r \<and> r \<le> 0xDFFF)
                     then (r, 3) else (RuneError, 1))
             | _ \<Rightarrow> (RuneError, 1))
          else if 0xF0 \<le> byte c0 \<and> byte c0 < 0xF8 then
            (case s1 of
               c1 # c2 # c3 # _ \<Rightarrow>
                 (let r = byte c0 mod 8 * 262144 + byte c1 mod 64 * 4096
                          + byte c2 mod 64 * 64 + byte c3 mod 64
                  in if cont c1 \<and> cont c2 \<and> cont c3 \<and> 0xFFFF < r \<and> r \<le> 0x10FFFF
                     then (r, 4) else (RuneError, 1))
             | _ \<Rightarrow> (RuneError, 1))
          else (RuneError, 1))"

text \<open>The pairs \<open>(i, char)\<close> of a \<^verbatim>\<open>range\<close> over the bytes \<open>s\<close> that start at offset \<open>k\<close>.\<close>

function range_from :: "int \<Rightarrow> string \<Rightarrow> (int \<times> nat) list" where
  "range_from k [] = []"
| "range_from k (c # s) =
     (k, fst (decoderune (c # s)))
       # range_from (k + int (snd (decoderune (c # s)))) (drop (snd (decoderune (c # s)) - 1) s)"
  by pat_completeness auto
termination
  by (relation "measure (\<lambda>(k, s). length s)") auto

definition range_string :: "string \<Rightarrow> (int \<times> nat) list" where
  "range_string s = range_from 0 s"

subsection \<open>\<^verbatim>\<open>strings.Fields\<close>\<close>

text \<open>
  \<^verbatim>\<open>unicode.IsSpace\<close>, and \<^verbatim>\<open>strings.FieldsFunc\<close> as the library writes it: \<open>start\<close> is the offset
  at which the current field began, or negative between fields (\<^verbatim>\<open>start = ^start\<close> is
  \<open>- start - 1\<close>). \<^verbatim>\<open>strings.Fields(s)\<close> is \<^verbatim>\<open>FieldsFunc(s, unicode.IsSpace)\<close>; its path for
  ASCII strings computes the same fields.
\<close>

definition IsSpace :: "nat \<Rightarrow> bool" where
  "IsSpace r \<longleftrightarrow>
     (0x09 \<le> r \<and> r \<le> 0x0D) \<or> r = 0x20 \<or> r = 0x85 \<or> r = 0xA0 \<or> r = 0x1680 \<or>
     (0x2000 \<le> r \<and> r \<le> 0x200A) \<or> r = 0x2028 \<or> r = 0x2029 \<or> r = 0x202F \<or>
     r = 0x205F \<or> r = 0x3000"

definition substring :: "string \<Rightarrow> int \<Rightarrow> int \<Rightarrow> string" where
  "substring s a b = take (nat (b - a)) (drop (nat a) s)"

definition FieldsFunc :: "string \<Rightarrow> (nat \<Rightarrow> bool) \<Rightarrow> string list" where
  "FieldsFunc s f =
     (let (start, spans) =
            fold (\<lambda>(end, rune) (start, spans).
                    if f rune then
                      (if 0 \<le> start then (- start - 1, spans @ [(start, end)]) else (start, spans))
                    else
                      (if start < 0 then (end, spans) else (start, spans)))
                 (range_string s) (- 1, []);
          spans = (if 0 \<le> start then spans @ [(start, int (length s))] else spans)
      in map (\<lambda>(a, b). substring s a b) spans)"

definition Fields :: "string \<Rightarrow> string list" where
  "Fields s = FieldsFunc s IsSpace"

subsection \<open>\<^verbatim>\<open>strconv.Atoi\<close> and decimal output\<close>

text \<open>
  \<^verbatim>\<open>strconv.Atoi\<close> returns a value and an error. A string that is no optionally signed
  sequence of decimal digits gives 0 and a syntax error; a number outside the 64-bit
  \<^verbatim>\<open>int\<close> gives the nearest bound and a range error, which \<^verbatim>\<open>ParseUint\<close> reports as soon as
  the digits read so far exceed 64 bits, before it looks at the rest of the string.
\<close>

datatype num_error = ErrSyntax | ErrRange

definition maxUint64 :: nat where
  "maxUint64 = 2 ^ 64 - 1"

definition is_digit :: "char \<Rightarrow> bool" where
  "is_digit c \<longleftrightarrow> 0x30 \<le> byte c \<and> byte c \<le> 0x39"

fun ParseUint :: "string \<Rightarrow> nat \<Rightarrow> num_error + nat" where
  "ParseUint [] n = Inr n"
| "ParseUint (c # s) n =
     (if \<not> is_digit c then Inl ErrSyntax
      else if maxUint64 div 10 + 1 \<le> n then Inl ErrRange
      else if maxUint64 < n * 10 + (byte c - 0x30) then Inl ErrRange
      else ParseUint s (n * 10 + (byte c - 0x30)))"

definition Atoi :: "string \<Rightarrow> int \<times> num_error option" where
  "Atoi s =
     (case s of
        [] \<Rightarrow> (0, Some ErrSyntax)
      | c # s1 \<Rightarrow>
          (let neg = (c = CHR ''-'');
               digits = (if c = CHR ''+'' \<or> c = CHR ''-'' then s1 else s)
           in if digits = [] then (0, Some ErrSyntax)
              else (case ParseUint digits 0 of
                      Inl ErrSyntax \<Rightarrow> (0, Some ErrSyntax)
                    | Inl ErrRange \<Rightarrow> (if neg then - (2 ^ 63) else 2 ^ 63 - 1, Some ErrRange)
                    | Inr un \<Rightarrow>
                        if \<not> neg \<and> 2 ^ 63 \<le> un then (2 ^ 63 - 1, Some ErrRange)
                        else if neg \<and> 2 ^ 63 < un then (- (2 ^ 63), Some ErrRange)
                        else (if neg then - int un else int un, None))))"

text \<open>The verb \<^verbatim>\<open>%d\<close> and \<^verbatim>\<open>Fprintln\<close> of an integer: decimal digits, a minus sign first.\<close>

fun FormatUint :: "nat \<Rightarrow> string" where
  "FormatUint n =
     (if n < 10 then [''0123456789'' ! n]
      else FormatUint (n div 10) @ [''0123456789'' ! (n mod 10)])"

declare FormatUint.simps [simp del]

definition Itoa :: "int \<Rightarrow> string" where
  "Itoa i = (if i < 0 then CHR ''-'' # FormatUint (nat (- i)) else FormatUint (nat i))"

subsection \<open>\<^verbatim>\<open>bufio.Scanner\<close> with its default split function\<close>

text \<open>
  The scanner cuts the file into lines. Its state here is the input it has not yet turned
  into tokens, the last token (\<^verbatim>\<open>Text()\<close>), and whether it has recorded \<^verbatim>\<open>ErrTooLong\<close>.
  \<^verbatim>\<open>ScanLines(data, atEOF)\<close> and \<^verbatim>\<open>dropCR\<close> are the library's. The buffer holds at most
  \<^verbatim>\<open>MaxScanTokenSize\<close> bytes: \<^verbatim>\<open>Scan\<close> offers \<^verbatim>\<open>ScanLines\<close> that much of the input, at end of file
  when nothing more can follow. When \<^verbatim>\<open>ScanLines\<close> asks for more and the buffer is full,
  \<^verbatim>\<open>Scan\<close> records \<^verbatim>\<open>ErrTooLong\<close>, returns false with an empty token and reads no further; the
  next \<^verbatim>\<open>Scan\<close> then hands out what the buffer holds as a last token. \<^verbatim>\<open>Scan\<close> returns its
  boolean with the new state; the source never looks at the boolean or at \<^verbatim>\<open>Err()\<close>.
\<close>

abbreviation (input) LF :: char where
  "LF \<equiv> CHR 0x0A"

abbreviation (input) CR :: char where
  "CR \<equiv> CHR 0x0D"

definition MaxScanTokenSize :: nat where
  "MaxScanTokenSize = 64 * 1024"

definition dropCR :: "string \<Rightarrow> string" where
  "dropCR data = (if data \<noteq> [] \<and> last data = CR then butlast data else data)"

definition ScanLines :: "string \<Rightarrow> bool \<Rightarrow> nat \<times> string option" where
  "ScanLines data atEOF =
     (if atEOF \<and> data = [] then (0, None)
      else if LF \<in> set data then
        (let i = length (takeWhile (\<lambda>c. c \<noteq> LF) data) in (i + 1, Some (dropCR (take i data))))
      else if atEOF then (length data, Some (dropCR data))
      else (0, None))"

record Scanner =
  input :: string
  token :: string
  tooLong :: bool

definition NewScanner :: "string \<Rightarrow> Scanner" where
  "NewScanner file = \<lparr>input = file, token = [], tooLong = False\<rparr>"

definition Scan :: "Scanner \<Rightarrow> bool \<times> Scanner" where
  "Scan s =
     (let buf = take MaxScanTokenSize (input s);
          atEOF = (tooLong s \<or> length (input s) < MaxScanTokenSize)
      in case ScanLines buf atEOF of
           (advance, Some tok) \<Rightarrow> (True, s\<lparr>input := drop advance (input s), token := tok\<rparr>)
         | (advance, None) \<Rightarrow>
             if atEOF then (False, s\<lparr>token := []\<rparr>)
             else (False, s\<lparr>input := buf, token := [], tooLong := True\<rparr>))"

definition Text :: "Scanner \<Rightarrow> string" where
  "Text s = token s"

section \<open>The image structs\<close>

text \<open>
  \<^verbatim>\<open>type PBM struct { data [][]bool; width, height int; magicNumber string }\<close> and
  \<^verbatim>\<open>type PGM struct { data [][]uint8; width int; height int; magicNumber string; max int }\<close>
  share their first four fields; \<open>PGM\<close> adds \<open>max\<close> (written \<open>max'\<close>, the name \<open>max\<close> being
  taken).
\<close>

record 'p image =
  data :: "'p list list"
  width :: int
  height :: int
  magicNumber :: string

type_synonym PBM = "bool image"

record PGM = "uint8 image" +
  max' :: int

text \<open>
  The dimensional invariant of the data model: \<open>len(data) == height\<close> and every row has
  \<open>width\<close> elements.
\<close>

definition dim_inv :: "('p, 'm) image_scheme \<Rightarrow> bool" where
  "dim_inv img \<longleftrightarrow>
     int (length (data img)) = height img \<and>
     list_all (\<lambda>row. int (length row) = width img) (data img)"

text \<open>
  What holds of every image that a run of the program holds in memory: the slice of rows
  and every row are within the allocation limit. Pixels of both kinds take one byte.
\<close>

definition in_memory :: "('p, 'm) image_scheme \<Rightarrow> bool" where
  "in_memory img \<longleftrightarrow>
     size_slice * int (length (data img)) \<le> maxAlloc \<and>
     list_all (\<lambda>row. int (length row) \<le> maxAlloc) (data img)"

section \<open>The bitmap codec (\<^verbatim>\<open>pbm.go\<close>)\<close>

text \<open>
  \<^verbatim>\<open>parseP1Line\<close>: a row of \<open>width\<close> false pixels, then every rune of the line sets the pixel
  at the rune's byte offset to \<^verbatim>\<open>char == '1'\<close>. An offset beyond the row is a panic.
\<close>

definition parseP1Line :: "string \<Rightarrow> int \<Rightarrow> error + bool list" where
  "parseP1Line line width' =
     and_then (make_slice size_bool width' False) (\<lambda>data'.
     for_each (range_string line) (\<lambda>(i, char) data'. store data' i (char = byte CHR ''1'')) data')"

text \<open>
  \<^verbatim>\<open>parseP4Line\<close>: the row is allocated first; a line shorter than \<^verbatim>\<open>(width+7)/8\<close> bytes gives
  \<^verbatim>\<open>nil\<close>; otherwise pixel \<open>i\<close> is \<^verbatim>\<open>(line[i/8] >> (7 - i%8)) & 1 == 1\<close>, computed on the
  byte as a \<^verbatim>\<open>uint8\<close>. The counter \<open>i\<close> is never negative, so \<^verbatim>\<open>%\<close> is \<open>mod\<close>. The sum
  \<^verbatim>\<open>width+7\<close> wraps around for a \<open>width\<close> within 7 of the largest \<^verbatim>\<open>int\<close>; no such \<open>width\<close>
  gets past the \<^verbatim>\<open>make\<close>.
\<close>

definition parseP4Line :: "string \<Rightarrow> int \<Rightarrow> error + bool list" where
  "parseP4Line line width' =
     and_then (make_slice size_bool width' False) (\<lambda>data'.
     if int (length line) < quo (wrap (width' + 7)) 8 then Inr []
     else
       for_each (count_up width') (\<lambda>i data'.
         let byteIndex = quo i 8;
             bitPos = nat (7 - i mod 8)
         in and_then (index line byteIndex) (\<lambda>b.
            let bit' = drop_bit bitPos (word_of_nat (byte b) :: uint8) AND 1
            in store data' i (bit' = 1))) data')"

text \<open>
  \<^verbatim>\<open>ReadPBM\<close>. The argument is what \<^verbatim>\<open>os.Open\<close> gave: its error, or the bytes of the file.
  Every header field and every row is one line of the scanner.
\<close>

definition ReadPBM :: "error + string \<Rightarrow> error + PBM" where
  "ReadPBM opened =
     (case opened of
        Inl err \<Rightarrow> Inl err
      | Inr file \<Rightarrow>
          let scanner = NewScanner file;
              scanner = snd (Scan scanner);
              magicNumber' = Text scanner
          in if magicNumber' \<noteq> ''P1'' \<and> magicNumber' \<noteq> ''P4''
             then Inl (New ''Invalid PBM magic number'')
             else
               let scanner = snd (Scan scanner);
                   dimensions = Fields (Text scanner)
               in if length dimensions \<noteq> 2 then Inl (New ''Invalid dimensions'')
                  else
                    let (width', err) = Atoi (dimensions ! 0)
                    in if err \<noteq> None then Inl (New ''Invalid width'')
                       else
                         let (height', err) = Atoi (dimensions ! 1)
                         in if err \<noteq> None then Inl (New ''Invalid height'')
                            else
                              and_then (make_slice size_slice height' []) (\<lambda>data'.
                              and_then
                                (for_each (count_up height') (\<lambda>i (scanner, data').
                                   let scanner = snd (Scan scanner);
                                       line = Text scanner
                                   in and_then
                                        (if magicNumber' = ''P1'' then parseP1Line line width'
                                         else parseP4Line line width') (\<lambda>row.
                                      and_then (store data' i row) (\<lambda>data'.
                                      Inr (scanner, data')))) (scanner, data'))
                                (\<lambda>(scanner, data').
                              Inr \<lparr>data = data', width = width', height = height',
                                   magicNumber = magicNumber'\<rparr>)))"

text \<open>
  \<^verbatim>\<open>PBM.Save\<close> (the same text in both files). The second argument is the error of
  \<^verbatim>\<open>os.Create\<close>, if any; the result is the content of the file once \<^verbatim>\<open>Save\<close> has returned \<^verbatim>\<open>nil\<close>.
  A write to the created file does not fail in this model. The loops range over the rows
  of \<open>data\<close> and the pixels of each row, whatever \<open>width\<close> and \<open>height\<close> say.
\<close>

definition PBM_Save :: "PBM \<Rightarrow> error option \<Rightarrow> error + string" where
  "PBM_Save pbm create_err =
     (case create_err of
        Some err \<Rightarrow> Inl err
      | None \<Rightarrow>
          let file = magicNumber pbm @ [LF] @ Itoa (width pbm) @ '' '' @ Itoa (height pbm) @ [LF]
          in Inr (foldl (\<lambda>file row.
                    foldl (\<lambda>file pixel.
                      if magicNumber pbm = ''P1'' then
                        (if pixel then file @ ''1 '' else file @ ''0 '')
                      else
                        (if pixel then file @ [CHR 0xFF] else file @ [CHR 0x00])) file row
                    @ [LF]) file (data pbm)))"

section \<open>Transforms of both kinds of image\<close>

text \<open>
  \<^verbatim>\<open>At\<close>, \<^verbatim>\<open>Flip\<close> and \<^verbatim>\<open>Flop\<close> have the same body for \<^verbatim>\<open>*PBM\<close> and for \<^verbatim>\<open>*PGM\<close>; each is embedded
  once, for any pixel type. A tuple assignment reads both right-hand sides, then assigns
  left to right.
\<close>

definition At :: "('p, 'm) image_scheme \<Rightarrow> int \<Rightarrow> int \<Rightarrow> error + 'p" where
  "At img x y = index2 (data img) y x"

definition Flip :: "('p, 'm) image_scheme \<Rightarrow> error + ('p, 'm) image_scheme" where
  "Flip img =
     for_each (count_up (height img)) (\<lambda>y img.
       for_each (count_up (quo (width img) 2)) (\<lambda>x img.
         and_then (index2 (data img) y (width img - x - 1)) (\<lambda>a.
         and_then (index2 (data img) y x) (\<lambda>b.
         and_then (store2 (data img) y x a) (\<lambda>d.
         and_then (store2 d y (width img - x - 1) b) (\<lambda>d.
         Inr (img\<lparr>data := d\<rparr>)))))) img) img"

definition Flop :: "('p, 'm) image_scheme \<Rightarrow> error + ('p, 'm) image_scheme" where
  "Flop img =
     for_each (count_up (quo (height img) 2)) (\<lambda>y img.
       and_then (index (data img) (height img - y - 1)) (\<lambda>a.
       and_then (index (data img) y) (\<lambda>b.
       and_then (store (data img) y a) (\<lambda>d.
       and_then (store d (height img - y - 1) b) (\<lambda>d.
       Inr (img\<lparr>data := d\<rparr>)))))) img"

section \<open>The grayscale codec and its transforms\<close>

text \<open>
  \<^verbatim>\<open>ReadPGM\<close>. The errors of \<^verbatim>\<open>Atoi\<close> are dropped (\<^verbatim>\<open>width, _ := ...\<close>), \<^verbatim>\<open>dimensions[0]\<close> and
  \<^verbatim>\<open>dimensions[1]\<close> are indexed unchecked, and every pixel is one line of the scanner,
  converted by \<^verbatim>\<open>uint8(val)\<close>, for \<open>P2\<close> and \<open>P5\<close> alike.
\<close>

definition ReadPGM :: "error + string \<Rightarrow> error + PGM" where
  "ReadPGM opened =
     (case opened of
        Inl err \<Rightarrow> Inl err
      | Inr file \<Rightarrow>
          let scanner = NewScanner file;
              scanner = snd (Scan scanner);
              magicNumber' = Text scanner
          in if magicNumber' \<noteq> ''P2'' \<and> magicNumber' \<noteq> ''P5''
             then Inl (New ''Unsupported PGM format'')
             else
               let scanner = snd (Scan scanner);
                   dimensions = Fields (Text scanner)
               in and_then (index dimensions 0) (\<lambda>d0.
                  let width' = fst (Atoi d0)
                  in and_then (index dimensions 1) (\<lambda>d1.
                  let height' = fst (Atoi d1);
                      scanner = snd (Scan scanner);
                      maxVal = fst (Atoi (Text scanner))
                  in and_then (make_slice size_slice height' []) (\<lambda>data'.
                     and_then
                       (for_each (count_up (int (length data'))) (\<lambda>i (scanner, data').
                          and_then (make_slice size_uint8 width' 0) (\<lambda>row.
                          and_then (store data' i row) (\<lambda>data'.
                          for_each (count_up (int (length row))) (\<lambda>j (scanner, data').
                            let scanner = snd (Scan scanner);
                                val = fst (Atoi (Text scanner))
                            in and_then (store2 data' i j (word_of_int val)) (\<lambda>data'.
                               Inr (scanner, data'))) (scanner, data')))) (scanner, data'))
                       (\<lambda>(scanner, data').
                     Inr \<lparr>data = data', width = width', height = height',
                          magicNumber = magicNumber', max' = maxVal\<rparr>)))))"

text \<open>
  \<^verbatim>\<open>PGM.Save\<close>: the header, then \<^verbatim>\<open>fmt.Fprintln(writer, pgm.data[i][j])\<close> for every pixel,
  whatever the magic number: the decimal digits of the \<^verbatim>\<open>uint8\<close> and a newline. The
  arguments and the result are as for \<open>PBM_Save\<close>; a panic leaves nothing to return.
\<close>

definition PGM_Save :: "PGM \<Rightarrow> error option \<Rightarrow> error + string" where
  "PGM_Save pgm create_err =
     (case create_err of
        Some err \<Rightarrow> Inl err
      | None \<Rightarrow>
          let writer = magicNumber pgm @ [LF] @ Itoa (width pgm) @ '' '' @ Itoa (height pgm) @ [LF]
                       @ Itoa (max' pgm) @ [LF]
          in for_each (count_up (height pgm)) (\<lambda>i writer.
               for_each (count_up (width pgm)) (\<lambda>j writer.
                 and_then (index2 (data pgm) i j) (\<lambda>p.
                 Inr (writer @ Itoa (uint p) @ [LF]))) writer) writer)"

text \<open>
  \<^verbatim>\<open>func (pgm *PGM) Invert()\<close>: both loops run over the stored \<open>height\<close> and \<open>width\<close>, and
  \<^verbatim>\<open>pgm.data[i][j] = uint8(pgm.max) - pgm.data[i][j]\<close> is a subtraction of 8-bit words.
\<close>

definition PGM_Invert :: "PGM \<Rightarrow> error + PGM" where
  "PGM_Invert pgm =
     for_each (count_up (height pgm)) (\<lambda>i pgm.
       for_each (count_up (width pgm)) (\<lambda>j pgm.
         and_then (index2 (data pgm) i j) (\<lambda>p.
         and_then (store2 (data pgm) i j (word_of_int (max' pgm) - p)) (\<lambda>d.
         Inr (pgm\<lparr>data := d\<rparr>)))) pgm) pgm"


text \<open>
  \<^verbatim>\<open>ToPBM\<close>: \<^verbatim>\<open>pbmData[i][j] = pgm.data[i][j] > uint8(pgm.max)/2\<close>, a comparison of 8-bit
  words, and the magic number \<open>P1\<close>.
\<close>

definition ToPBM :: "PGM \<Rightarrow> error + PBM" where
  "ToPBM pgm =
     and_then (make_slice size_slice (height pgm) []) (\<lambda>pbmData.
     and_then
       (for_each (count_up (height pgm)) (\<lambda>i pbmData.
          and_then (make_slice size_bool (width pgm) False) (\<lambda>row.
          and_then (store pbmData i row) (\<lambda>pbmData.
          for_each (count_up (width pgm)) (\<lambda>j pbmData.
            and_then (index2 (data pgm) i j) (\<lambda>p.
            store2 pbmData i j (word_of_int (max' pgm) div 2 < p))) pbmData))) pbmData)
       (\<lambda>pbmData.
     Inr \<lparr>data = pbmData, width = width pgm, height = height pgm, magicNumber = ''P1''\<rparr>))"

section \<open>Notions of the statements\<close>

text \<open>
  The scanner after \<open>k\<close> further calls of \<^verbatim>\<open>Scan\<close>, the text of line \<open>k\<close> of a file (counted
  from 0: what \<^verbatim>\<open>Text()\<close> returns after call \<open>k + 1\<close>), and a scanner that has used up its
  input.
\<close>

definition scanned :: "Scanner \<Rightarrow> nat \<Rightarrow> Scanner" where
  "scanned s k = ((\<lambda>s. snd (Scan s)) ^^ k) s"

definition line_of :: "string \<Rightarrow> nat \<Rightarrow> string" where
  "line_of file k = Text (scanned (NewScanner file) (Suc k))"

definition at_end :: "Scanner \<Rightarrow> bool" where
  "at_end s \<longleftrightarrow> input s = []"

section \<open>Notions of the proofs\<close>

text \<open>
  A list after \<open>k\<close> steps of the swap loop of \<open>Flip\<close> and \<open>Flop\<close>: the first \<open>k\<close> and the
  last \<open>k\<close> elements are mirrored, the middle is as it was.
\<close>

definition swapped :: "nat \<Rightarrow> 'a list \<Rightarrow> 'a list" where
  "swapped k xs =
     map (\<lambda>j. if j < k \<or> length xs - k \<le> j then xs ! (length xs - 1 - j) else xs ! j)
       [0..<length xs]"


section \<open>Concrete images and files\<close>

text \<open>
  Images on which the theorems are evaluated. \<open>dark_pgm\<close> has a pixel above its \<open>max\<close>;
  \<open>seven_pgm\<close> carries the magic number of the binary grayscale format. \<open>wide_pgm\<close> has no
  row and a \<open>width\<close> of \<open>2 ^ 62\<close>;
  \<open>tall_pgm\<close> has more rows than a slice may hold. \<open>checker_pbm\<close> is the bitmap of the
  specification's scenario.
\<close>

definition dark_pgm :: PGM where
  "dark_pgm = \<lparr>data = [[200, 7]], width = 2, height = 1, magicNumber = ''P2'', max' = 100\<rparr>"


definition seven_pgm :: PGM where
  "seven_pgm = \<lparr>data = [[1, 2, 3], [4, 5, 6]], width = 3, height = 2, magicNumber = ''P5'',
     max' = 7\<rparr>"


definition tall_pgm :: PGM where
  "tall_pgm = \<lparr>data = replicate (2 ^ 45) [], width = 0, height = 2 ^ 45, magicNumber = ''P2'',
     max' = 255\<rparr>"

definition stripes_pbm :: PBM where
  "stripes_pbm = \<lparr>data = [[True, False, False], [False, True, True]], width = 3, height = 2,
     magicNumber = ''P1''\<rparr>"

definition checker_pbm :: PBM where
  "checker_pbm = \<lparr>data = [[True, False], [False, True]], width = 2, height = 2,
     magicNumber = ''P1''\<rparr>"

definition p4_pbm :: PBM where
  "p4_pbm = \<lparr>data = [[True, False], [False, True]], width = 2, height = 2, magicNumber = ''P4''\<rparr>"

text \<open>
  Files. \<open>spaced_file\<close> is the 2 by 2 ASCII bitmap of the specification's scenario and
  \<open>saved_file\<close> the same bitmap with a blank after every pixel, as \<^verbatim>\<open>Save\<close> writes it;
  \<open>bits_file\<close> is the same bitmap with no blanks between the pixels, \<open>short_bits_file\<close> has
  lost its second row. \<open>gray_file\<close> is a 2 by 1 grayscale image with its two pixel lines,
  \<open>short_gray_file\<close> the same file with the last pixel line missing,
  \<open>one_line_gray_file\<close> has three pixels on one line, and \<open>wide_file\<close> is a header that
  declares a width of \<open>2 ^ 62\<close> and no row.
\<close>

definition spaced_file :: string where
  "spaced_file = ''P1'' @ [LF] @ ''2 2'' @ [LF] @ ''1 0'' @ [LF] @ ''0 1'' @ [LF]"

definition saved_file :: string where
  "saved_file = ''P1'' @ [LF] @ ''2 2'' @ [LF] @ ''1 0 '' @ [LF] @ ''0 1 '' @ [LF]"

definition bits_file :: string where
  "bits_file = ''P1'' @ [LF] @ ''2 2'' @ [LF] @ ''10'' @ [LF] @ ''01'' @ [LF]"

definition short_bits_file :: string where
  "short_bits_file = ''P1'' @ [LF] @ ''2 2'' @ [LF] @ ''10'' @ [LF]"

definition zero_file :: string where
  "zero_file = ''P1'' @ [LF] @ ''0 0'' @ [LF]"

definition bad_height_file :: string where
  "bad_height_file = ''P4'' @ [LF] @ ''2 x'' @ [LF]"

definition three_dims_file :: string where
  "three_dims_file = ''P1'' @ [LF] @ ''2 2 2'' @ [LF]"

definition gray_file :: string where
  "gray_file = ''P2'' @ [LF] @ ''2 1'' @ [LF] @ ''255'' @ [LF] @ ''7'' @ [LF] @ ''9'' @ [LF]"

definition short_gray_file :: string where
  "short_gray_file = ''P2'' @ [LF] @ ''2 1'' @ [LF] @ ''255'' @ [LF] @ ''7'' @ [LF]"


definition one_line_gray_file :: string where
  "one_line_gray_file = ''P2'' @ [LF] @ ''3 1'' @ [LF] @ ''255'' @ [LF] @ ''10 20 30'' @ [LF]"

section \<open>Loops and indexed access\<close>

lemma for_each_append:
  "for_each (xs @ ys) body s =
     (case for_each xs body s of Inl e \<Rightarrow> Inl e | Inr s' \<Rightarrow> for_each ys body s')"
  by (induction xs arbitrary: s) (auto split: sum.splits)

lemma count_up_Suc: "count_up (int (Suc n)) = count_up (int n) @ [int n]"
  by (simp add: count_up_def del: of_nat_Suc)

lemma count_up_0: "count_up 0 = []"
  by (simp add: count_up_def)

text \<open>
  The loop rule: an invariant \<open>P k\<close> that holds before iteration \<open>k\<close> and is re-established
  by every iteration, none of which panics, holds with \<open>k = n\<close> when the loop is over.
\<close>

lemma for_each_rule:
  assumes init: "P 0 s"
    and step: "\<And>k t. k < n \<Longrightarrow> P k t \<Longrightarrow> \<exists>t'. body (int k) t = Inr t' \<and> P (Suc k) t'"
  shows "\<exists>s'. for_each (count_up (int n)) body s = Inr s' \<and> P n s'"
  using step
proof (induction n)
  case 0
  then show ?case using init by (simp add: count_up_0)
next
  case (Suc n)
  have "\<exists>s'. for_each (count_up (int n)) body s = Inr s' \<and> P n s'"
    by (rule Suc.IH) (simp add: Suc.prems)
  then obtain s1 where s1: "for_each (count_up (int n)) body s = Inr s1" "P n s1"
    by blast
  from Suc.prems [of n s1] s1(2) obtain s2 where s2: "body (int n) s1 = Inr s2" "P (Suc n) s2"
    by auto
  show ?case
    by (simp add: count_up_Suc for_each_append s1 s2 del: of_nat_Suc)
qed

text \<open>A loop whose first iteration panics.\<close>

lemma for_each_first_fails:
  assumes "0 < n" and "body 0 s = Inl e"
  shows "for_each (count_up n) body s = Inl e"
proof -
  obtain m where "nat n = Suc m" using assms(1) by (cases "nat n") auto
  then have "count_up n = 0 # map int (map Suc [0..<m])"
    by (simp add: count_up_def upt_conv_Cons map_Suc_upt del: upt_Suc)
  then show ?thesis using assms(2) by simp
qed

lemma index_nat: "i < length xs \<Longrightarrow> index xs (int i) = Inr (xs ! i)"
  by (simp add: index_def)

lemma store_nat: "i < length xs \<Longrightarrow> store xs (int i) v = Inr (xs[i := v])"
  by (simp add: store_def)

lemma index2_nat:
  "i < length d \<Longrightarrow> j < length (d ! i) \<Longrightarrow> index2 d (int i) (int j) = Inr (d ! i ! j)"
  by (simp add: index2_def and_then_def index_nat)

lemma store2_nat:
  "i < length d \<Longrightarrow> j < length (d ! i) \<Longrightarrow>
   store2 d (int i) (int j) v = Inr (d[i := (d ! i)[j := v]])"
  by (simp add: store2_def and_then_def index_nat store_nat)

section \<open>Invert on a grayscale image\<close>

lemma map_prefix_step:
  "k < length row \<Longrightarrow>
   (map f (take k row) @ drop k row)[k := f (row ! k)] = map f (take (Suc k) row) @ drop (Suc k) row"
  by (simp add: take_Suc_conv_app_nth list_update_append flip: Cons_nth_drop_Suc)

lemma map_prefix_nth:
  "k < length row \<Longrightarrow> (map f (take k row) @ drop k row) ! k = row ! k"
  by (simp add: nth_append)

lemma dim_inv_row:
  "dim_inv img \<Longrightarrow> i < length (data img) \<Longrightarrow> int (length (data img ! i)) = width img"
  by (simp add: dim_inv_def list_all_length)

lemma dim_inv_map_data:
  "dim_inv img \<Longrightarrow> dim_inv (img\<lparr>data := map (map f) (data img)\<rparr>)"
  by (simp add: dim_inv_def list_all_length)

lemma uint8_of_int_sub:
  "uint (word_of_int m - p :: uint8) = (m mod 256 - uint p) mod 256"
  by (simp add: uint_word_ariths uint_word_of_int)

text \<open>The inner loop of \<open>PGM_Invert\<close> on row \<open>i\<close>.\<close>

lemma Invert_row:
  fixes pgm :: PGM
  assumes i: "i < length (data pgm)" and n: "length (data pgm ! i) = n"
  shows "for_each (count_up (int n)) (\<lambda>j pgm.
         and_then (index2 (data pgm) (int i) j) (\<lambda>p.
         and_then (store2 (data pgm) (int i) j (word_of_int (max' pgm) - p)) (\<lambda>d.
         Inr (pgm\<lparr>data := d\<rparr>)))) pgm
       = Inr (pgm\<lparr>data := (data pgm)[i := map (\<lambda>p. word_of_int (max' pgm) - p) (data pgm ! i)]\<rparr>)"
proof -
  define f where "f = (\<lambda>p :: uint8. word_of_int (max' pgm) - p)"
  define row where "row = data pgm ! i"
  define P where "P = (\<lambda>k (t :: PGM).
     t = pgm\<lparr>data := (data pgm)[i := map f (take k row) @ drop k row]\<rparr>)"
  let ?body = "\<lambda>j pgm.
         and_then (index2 (data pgm) (int i) j) (\<lambda>p.
         and_then (store2 (data pgm) (int i) j (word_of_int (max' pgm) - p)) (\<lambda>d.
         Inr (pgm\<lparr>data := d\<rparr>)))"
  have "\<exists>s'. for_each (count_up (int n)) ?body pgm = Inr s' \<and> P n s'"
  proof (rule for_each_rule)
    show "P 0 pgm" by (simp add: P_def row_def)
  next
    fix k t assume k: "k < n" and t: "P k t"
    have len: "k < length row" using k n by (simp add: row_def)
    show "\<exists>t'. ?body (int k) t = Inr t' \<and> P (Suc k) t'"
      using i len unfolding t [unfolded P_def] P_def
      by (simp add: index2_nat store2_nat and_then_def map_prefix_nth map_prefix_step f_def)
  qed
  then show ?thesis using n by (auto simp: P_def row_def f_def)
qed

lemma PGM_Invert_map:
  assumes "dim_inv pgm"
  shows "PGM_Invert pgm =
     Inr (pgm\<lparr>data := map (map (\<lambda>p. word_of_int (max' pgm) - p)) (data pgm)\<rparr>)"
proof -
  define f where "f = (\<lambda>p :: uint8. word_of_int (max' pgm) - p)"
  define d where "d = data pgm"
  define n where "n = length d"
  define P where "P = (\<lambda>k (t :: PGM). t = pgm\<lparr>data := map (map f) (take k d) @ drop k d\<rparr>)"
  let ?body = "\<lambda>i pgm.
       for_each (count_up (width pgm)) (\<lambda>j pgm.
         and_then (index2 (data pgm) i j) (\<lambda>p.
         and_then (store2 (data pgm) i j (word_of_int (max' pgm) - p)) (\<lambda>d.
         Inr (pgm\<lparr>data := d\<rparr>)))) pgm"
  have h: "height pgm = int n"
    using assms by (simp add: dim_inv_def n_def d_def)
  have "\<exists>s'. for_each (count_up (int n)) ?body pgm = Inr s' \<and> P n s'"
  proof (rule for_each_rule)
    show "P 0 pgm" by (simp add: P_def d_def)
  next
    fix k t assume k: "k < n" and t: "P k t"
    have kd: "k < length d" using k by (simp add: n_def)
    have w: "width pgm = int (length (d ! k))"
      using dim_inv_row [OF assms, of k] kd by (simp add: d_def)
    have ti: "k < length (data t)" using kd by (simp add: t [unfolded P_def])
    have tk: "data t ! k = d ! k" using kd by (simp add: t [unfolded P_def] nth_append)
    have wt: "width t = int (length (data t ! k))"
      using w tk by (simp add: t [unfolded P_def])
    have mt: "max' t = max' pgm" by (simp add: t [unfolded P_def])
    have "?body (int k) t = Inr (t\<lparr>data := (data t)[k := map f (data t ! k)]\<rparr>)"
      unfolding wt using Invert_row [OF ti refl] by (simp add: f_def mt)
    moreover have "P (Suc k) (t\<lparr>data := (data t)[k := map f (data t ! k)]\<rparr>)"
      using kd map_prefix_step [of k d "map f"]
      by (simp add: tk) (simp add: t [unfolded P_def] P_def)
    ultimately show "\<exists>t'. ?body (int k) t = Inr t' \<and> P (Suc k) t'" by simp
  qed
  then show ?thesis
    by (auto simp: PGM_Invert_def h P_def n_def d_def f_def)
qed

text \<open>
  C10. On a grayscale image that satisfies the dimensional invariant, \<open>Invert\<close> replaces
  every pixel \<open>p\<close> by the 8-bit difference \<open>uint8(max) - p\<close>, whose value is
  \<open>(max mod 256 - p) mod 256\<close> for every byte \<open>p\<close>, also one above \<open>max\<close>: nothing is clamped.
  A second \<open>Invert\<close> gives the image back.
\<close>

theorem PGM_Invert_wraps:
  assumes "dim_inv pgm"
  shows "PGM_Invert pgm =
           Inr (pgm\<lparr>data := map (map (\<lambda>p. word_of_int (max' pgm) - p)) (data pgm)\<rparr>) \<and>
         (\<forall>p :: uint8. uint (word_of_int (max' pgm) - p) = (max' pgm mod 256 - uint p) mod 256) \<and>
         and_then (PGM_Invert pgm) PGM_Invert = Inr pgm"
proof -
  let ?pgm' = "pgm\<lparr>data := map (map (\<lambda>p. word_of_int (max' pgm) - p)) (data pgm)\<rparr>"
  have 1: "PGM_Invert pgm = Inr ?pgm'" by (rule PGM_Invert_map [OF assms])
  have "PGM_Invert ?pgm' = Inr pgm"
    using PGM_Invert_map [OF dim_inv_map_data [OF assms]]
    by (simp add: comp_def)
  with 1 show ?thesis by (simp add: and_then_def uint8_of_int_sub)
qed

text \<open>
  The image \<open>dark_pgm\<close> has \<open>max = 100\<close> and a pixel 200: it becomes 156, above \<open>max\<close>, and
  a second \<open>Invert\<close> restores 200.
\<close>

theorem PGM_Invert_wraps_witness:
  "dim_inv dark_pgm \<and>
   PGM_Invert dark_pgm = Inr (dark_pgm\<lparr>data := [[156, 93]]\<rparr>) \<and>
   and_then (PGM_Invert dark_pgm) PGM_Invert = Inr dark_pgm"
proof -
  have h: "dim_inv dark_pgm" by (simp add: dim_inv_def dark_pgm_def)
  have a: "PGM_Invert dark_pgm = Inr (dark_pgm\<lparr>data := [[156, 93]]\<rparr>)"
    using PGM_Invert_wraps [OF h, THEN conjunct1] by (simp add: dark_pgm_def)
  have b: "and_then (PGM_Invert dark_pgm) PGM_Invert = Inr dark_pgm"
    using PGM_Invert_wraps [OF h] by blast
  show ?thesis using h a b by blast
qed

section \<open>Flip and Flop\<close>

lemma length_swapped [simp]: "length (swapped k xs) = length xs"
  by (simp add: swapped_def)

lemma swapped_0: "swapped 0 xs = xs"
  by (rule nth_equalityI) (simp_all add: swapped_def)

lemma swapped_half: "swapped (length xs div 2) xs = rev xs"
proof (rule nth_equalityI)
  show "length (swapped (length xs div 2) xs) = length (rev xs)" by simp
next
  fix j assume "j < length (swapped (length xs div 2) xs)"
  then have j: "j < length xs" by simp
  have "\<not> (j < length xs div 2 \<or> length xs - length xs div 2 \<le> j) \<Longrightarrow> length xs - 1 - j = j"
    using j by linarith
  then show "swapped (length xs div 2) xs ! j = rev xs ! j"
    using j by (auto simp: swapped_def rev_nth)
qed

lemma swapped_nth_lo:
  assumes "k < length xs div 2"
  shows "swapped k xs ! k = xs ! k"
proof -
  have "\<not> length xs - k \<le> k" "k < length xs" using assms by linarith+
  then show ?thesis by (simp add: swapped_def)
qed

lemma swapped_nth_hi:
  assumes "k < length xs div 2"
  shows "swapped k xs ! (length xs - k - 1) = xs ! (length xs - k - 1)"
proof -
  have "\<not> length xs - k - 1 < k" "\<not> length xs - k \<le> length xs - k - 1" "length xs - k - 1 < length xs"
    using assms by linarith+
  then show ?thesis by (simp add: swapped_def)
qed

lemma swapped_step:
  assumes "k < length xs div 2"
  shows "(swapped k xs)[k := xs ! (length xs - k - 1), length xs - k - 1 := xs ! k]
         = swapped (Suc k) xs"
proof (rule nth_equalityI)
  show "length ((swapped k xs)[k := xs ! (length xs - k - 1), length xs - k - 1 := xs ! k])
        = length (swapped (Suc k) xs)" by simp
next
  fix j assume "j < length ((swapped k xs)[k := xs ! (length xs - k - 1), length xs - k - 1 := xs ! k])"
  then have j: "j < length xs" by simp
  have a: "length xs - 1 - (length xs - k - 1) = k" using assms by linarith
  show "(swapped k xs)[k := xs ! (length xs - k - 1), length xs - k - 1 := xs ! k] ! j
        = swapped (Suc k) xs ! j"
    using j assms
    by (auto simp: nth_list_update swapped_def a) 
qed

lemma quo_2_nat: "quo (int a) 2 = int (a div 2)"
  by (cases "a = 0") (simp_all add: quo_def zdiv_int)

lemma for_each_rows:
  fixes img :: "('p, 'm) image_scheme"
  assumes step: "\<And>k t. k < length (data img) \<Longrightarrow>
      t = img\<lparr>data := map f (take k (data img)) @ drop k (data img)\<rparr> \<Longrightarrow>
      body (int k) t = Inr (t\<lparr>data := (data t)[k := f (data img ! k)]\<rparr>)"
  shows "for_each (count_up (int (length (data img)))) body img = Inr (img\<lparr>data := map f (data img)\<rparr>)"
proof -
  define d where "d = data img"
  define P where "P = (\<lambda>k t. t = img\<lparr>data := map f (take k d) @ drop k d\<rparr>)"
  have "\<exists>s'. for_each (count_up (int (length d))) body img = Inr s' \<and> P (length d) s'"
  proof (rule for_each_rule)
    show "P 0 img" by (simp add: P_def d_def)
  next
    fix k t assume k: "k < length d" and t: "P k t"
    have "body (int k) t = Inr (t\<lparr>data := (data t)[k := f (d ! k)]\<rparr>)"
      using step [of k t] k t by (simp add: P_def d_def)
    moreover have "P (Suc k) (t\<lparr>data := (data t)[k := f (d ! k)]\<rparr>)"
      using k map_prefix_step [of k d f] by (simp add: t [unfolded P_def] P_def)
    ultimately show "\<exists>t'. body (int k) t = Inr t' \<and> P (Suc k) t'" by simp
  qed
  then show ?thesis by (auto simp: P_def d_def)
qed

lemma Flip_row:
  fixes img :: "('p, 'm) image_scheme"
  assumes y: "y < length (data img)" and w: "width img = int (length (data img ! y))"
  shows "for_each (count_up (quo (width img) 2)) (\<lambda>x img.
         and_then (index2 (data img) (int y) (width img - x - 1)) (\<lambda>a.
         and_then (index2 (data img) (int y) x) (\<lambda>b.
         and_then (store2 (data img) (int y) x a) (\<lambda>d.
         and_then (store2 d (int y) (width img - x - 1) b) (\<lambda>d.
         Inr (img\<lparr>data := d\<rparr>)))))) img
       = Inr (img\<lparr>data := (data img)[y := rev (data img ! y)]\<rparr>)"
proof -
  define row where "row = data img ! y"
  define n where "n = length row"
  define P where "P = (\<lambda>k t. t = img\<lparr>data := (data img)[y := swapped k row]\<rparr>)"
  let ?body = "\<lambda>x (img :: ('p, 'm) image_scheme).
         and_then (index2 (data img) (int y) (width img - x - 1)) (\<lambda>a.
         and_then (index2 (data img) (int y) x) (\<lambda>b.
         and_then (store2 (data img) (int y) x a) (\<lambda>d.
         and_then (store2 d (int y) (width img - x - 1) b) (\<lambda>d.
         Inr (img\<lparr>data := d\<rparr>)))))"
  have wn: "width img = int n" using w by (simp add: n_def row_def)
  have "\<exists>s'. for_each (count_up (int (n div 2))) ?body img = Inr s' \<and> P (n div 2) s'"
  proof (rule for_each_rule)
    show "P 0 img" using y by (simp add: P_def swapped_0 row_def)
  next
    fix k t assume k: "k < n div 2" and t: "P k t"
    have k': "k < length row div 2" using k by (simp add: n_def)
    define m where "m = n - k - 1"
    have hi: "width t - int k - 1 = int m"
      using k by (simp add: t [unfolded P_def] wn m_def)
    have klt: "k < n" "m < n" using k by (simp_all add: m_def)
    have dt: "data t = (data img)[y := swapped k row]" by (simp add: t [unfolded P_def])
    have a: "index2 (data t) (int y) (int m) = Inr (row ! m)"
      using y klt swapped_nth_hi [OF k', folded n_def, folded m_def]
      by (simp add: index2_nat dt n_def)
    have b: "index2 (data t) (int y) (int k) = Inr (row ! k)"
      using y klt swapped_nth_lo [OF k'] by (simp add: index2_nat dt n_def)
    have c: "store2 (data t) (int y) (int k) v = Inr ((data img)[y := (swapped k row)[k := v]])" for v
      using y klt by (simp add: store2_nat dt n_def)
    have d: "store2 ((data img)[y := (swapped k row)[k := v]]) (int y) (int m) u
             = Inr ((data img)[y := (swapped k row)[k := v, m := u]])" for v u
      using y klt by (simp add: store2_nat n_def)
    have "?body (int k) t = Inr (t\<lparr>data := (data img)[y := swapped (Suc k) row]\<rparr>)"
      unfolding hi by (simp add: a b c d and_then_def swapped_step [OF k', folded n_def, folded m_def])
    then show "\<exists>t'. ?body (int k) t = Inr t' \<and> P (Suc k) t'"
      by (simp add: t [unfolded P_def] P_def)
  qed
  then show ?thesis
    by (auto simp: wn quo_2_nat P_def n_def swapped_half row_def)
qed

lemma Flip_map_rev:
  fixes img :: "('p, 'm) image_scheme"
  assumes "dim_inv img"
  shows "Flip img = Inr (img\<lparr>data := map rev (data img)\<rparr>)"
proof -
  have h: "height img = int (length (data img))"
    using assms by (simp add: dim_inv_def)
  show ?thesis
    unfolding Flip_def h
  proof (rule for_each_rows)
    fix k and t :: "('p, 'm) image_scheme"
    assume k: "k < length (data img)"
      and t: "t = img\<lparr>data := map rev (take k (data img)) @ drop k (data img)\<rparr>"
    have ti: "k < length (data t)" using k by (simp add: t)
    have tk: "data t ! k = data img ! k" using k by (simp add: t nth_append)
    have wt: "width t = int (length (data t ! k))"
      using dim_inv_row [OF assms k] by (simp add: tk) (simp add: t)
    show "for_each (count_up (quo (width t) 2)) (\<lambda>x img.
         and_then (index2 (data img) (int k) (width img - x - 1)) (\<lambda>a.
         and_then (index2 (data img) (int k) x) (\<lambda>b.
         and_then (store2 (data img) (int k) x a) (\<lambda>d.
         and_then (store2 d (int k) (width img - x - 1) b) (\<lambda>d.
         Inr (img\<lparr>data := d\<rparr>)))))) t = Inr (t\<lparr>data := (data t)[k := rev (data img ! k)]\<rparr>)"
      using Flip_row [OF ti wt] by (simp add: tk)
  qed
qed

lemma Flop_rev:
  fixes img :: "('p, 'm) image_scheme"
  assumes "dim_inv img"
  shows "Flop img = Inr (img\<lparr>data := rev (data img)\<rparr>)"
proof -
  define d0 where "d0 = data img"
  define n where "n = length d0"
  define P where "P = (\<lambda>k t. t = img\<lparr>data := swapped k d0\<rparr>)"
  let ?body = "\<lambda>y (img :: ('p, 'm) image_scheme).
       and_then (index (data img) (height img - y - 1)) (\<lambda>a.
       and_then (index (data img) y) (\<lambda>b.
       and_then (store (data img) y a) (\<lambda>d.
       and_then (store d (height img - y - 1) b) (\<lambda>d.
       Inr (img\<lparr>data := d\<rparr>)))))"
  have h: "height img = int n"
    using assms by (simp add: dim_inv_def n_def d0_def)
  have "\<exists>s'. for_each (count_up (int (n div 2))) ?body img = Inr s' \<and> P (n div 2) s'"
  proof (rule for_each_rule)
    show "P 0 img" by (simp add: P_def swapped_0 d0_def)
  next
    fix k t assume k: "k < n div 2" and t: "P k t"
    have k': "k < length d0 div 2" using k by (simp add: n_def)
    define m where "m = n - k - 1"
    have hi: "height t - int k - 1 = int m"
      using k by (simp add: t [unfolded P_def] h m_def)
    have klt: "k < n" "m < n" using k by (simp_all add: m_def)
    have dt: "data t = swapped k d0" by (simp add: t [unfolded P_def])
    have a: "index (data t) (int m) = Inr (d0 ! m)"
      using klt swapped_nth_hi [OF k', folded n_def, folded m_def]
      by (simp add: index_nat dt n_def)
    have b: "index (data t) (int k) = Inr (d0 ! k)"
      using klt swapped_nth_lo [OF k'] by (simp add: index_nat dt n_def)
    have c: "store (data t) (int k) v = Inr ((swapped k d0)[k := v])" for v
      using klt by (simp add: store_nat dt n_def)
    have d: "store ((swapped k d0)[k := v]) (int m) u
             = Inr ((swapped k d0)[k := v, m := u])" for v u
      using klt by (simp add: store_nat n_def)
    have "?body (int k) t = Inr (t\<lparr>data := swapped (Suc k) d0\<rparr>)"
      unfolding hi by (simp add: a b c d and_then_def swapped_step [OF k', folded n_def, folded m_def])
    then show "\<exists>t'. ?body (int k) t = Inr t' \<and> P (Suc k) t'"
      by (simp add: t [unfolded P_def] P_def)
  qed
  then show ?thesis
    by (auto simp: Flop_def h quo_2_nat P_def n_def swapped_half d0_def)
qed

lemma dim_inv_map_rev: "dim_inv img \<Longrightarrow> dim_inv (img\<lparr>data := map rev (data img)\<rparr>)"
  by (simp add: dim_inv_def list_all_length)

lemma dim_inv_rev: "dim_inv img \<Longrightarrow> dim_inv (img\<lparr>data := rev (data img)\<rparr>)"
  by (simp add: dim_inv_def list_all_iff)

text \<open>
  C9. On an image of either kind that satisfies the dimensional invariant, \<open>Flip\<close> reverses
  every row and \<open>Flop\<close> reverses the order of the rows, so \<open>Flip\<close> twice and \<open>Flop\<close> twice
  give the image back; on such a grayscale image \<open>Invert\<close> twice (the \<open>max\<close> field is not
  touched in between) gives the image back.
\<close>

theorem Flip_Flop_Invert_twice:
  fixes img :: "('p, 'm) image_scheme" and pgm :: PGM
  assumes "dim_inv img" and "dim_inv pgm"
  shows "Flip img = Inr (img\<lparr>data := map rev (data img)\<rparr>) \<and>
         and_then (Flip img) Flip = Inr img \<and>
         Flop img = Inr (img\<lparr>data := rev (data img)\<rparr>) \<and>
         and_then (Flop img) Flop = Inr img \<and>
         and_then (PGM_Invert pgm) PGM_Invert = Inr pgm"
proof -
  have flip: "Flip img = Inr (img\<lparr>data := map rev (data img)\<rparr>)"
    by (rule Flip_map_rev [OF assms(1)])
  have "Flip (img\<lparr>data := map rev (data img)\<rparr>) = Inr img"
    using Flip_map_rev [OF dim_inv_map_rev [OF assms(1)]] by (simp add: comp_def)
  then have flip2: "and_then (Flip img) Flip = Inr img"
    by (simp add: flip and_then_def)
  have flop: "Flop img = Inr (img\<lparr>data := rev (data img)\<rparr>)"
    by (rule Flop_rev [OF assms(1)])
  have "Flop (img\<lparr>data := rev (data img)\<rparr>) = Inr img"
    using Flop_rev [OF dim_inv_rev [OF assms(1)]] by simp
  then have flop2: "and_then (Flop img) Flop = Inr img"
    by (simp add: flop and_then_def)
  have "PGM_Invert (pgm\<lparr>data := map (map (\<lambda>p. word_of_int (max' pgm) - p)) (data pgm)\<rparr>) = Inr pgm"
    using PGM_Invert_map [OF dim_inv_map_data [OF assms(2)]] by (simp add: comp_def)
  then have inv2: "and_then (PGM_Invert pgm) PGM_Invert = Inr pgm"
    by (simp add: PGM_Invert_map [OF assms(2)] and_then_def)
  from flip flip2 flop flop2 inv2 show ?thesis by blast
qed

text \<open>The bitmap \<open>stripes_pbm\<close> (3 by 2) and the grayscale image \<open>dark_pgm\<close> (2 by 1).\<close>

theorem Flip_Flop_Invert_twice_witness:
  "dim_inv stripes_pbm \<and> dim_inv dark_pgm \<and>
   Flip stripes_pbm = Inr (stripes_pbm\<lparr>data := [[False, False, True], [True, True, False]]\<rparr>) \<and>
   and_then (Flip stripes_pbm) Flip = Inr stripes_pbm \<and>
   Flop stripes_pbm = Inr (stripes_pbm\<lparr>data := [[False, True, True], [True, False, False]]\<rparr>) \<and>
   and_then (Flop stripes_pbm) Flop = Inr stripes_pbm \<and>
   Flip dark_pgm = Inr (dark_pgm\<lparr>data := [[7, 200]]\<rparr>) \<and>
   and_then (Flip dark_pgm) Flip = Inr dark_pgm \<and>
   and_then (Flop dark_pgm) Flop = Inr dark_pgm \<and>
   and_then (PGM_Invert dark_pgm) PGM_Invert = Inr dark_pgm"
proof -
  have b: "dim_inv stripes_pbm" by (simp add: dim_inv_def stripes_pbm_def)
  have g: "dim_inv dark_pgm" by (simp add: dim_inv_def dark_pgm_def)
  have 1: "Flip stripes_pbm = Inr (stripes_pbm\<lparr>data := [[False, False, True], [True, True, False]]\<rparr>)"
    using Flip_Flop_Invert_twice [OF b g, THEN conjunct1] by (simp add: stripes_pbm_def)
  have 2: "Flop stripes_pbm = Inr (stripes_pbm\<lparr>data := [[False, True, True], [True, False, False]]\<rparr>)"
    using Flip_Flop_Invert_twice [OF b g] by (simp add: stripes_pbm_def)
  have 3: "Flip dark_pgm = Inr (dark_pgm\<lparr>data := [[7, 200]]\<rparr>)"
    using Flip_Flop_Invert_twice [OF g g, THEN conjunct1] by (simp add: dark_pgm_def)
  show ?thesis
    using b g 1 2 3 Flip_Flop_Invert_twice [OF b g] Flip_Flop_Invert_twice [OF g g] by blast
qed

section \<open>Rotate90CW\<close>

lemma fill_step:
  assumes "j < n"
  shows "(map f [0..<j] @ replicate (n - j) z)[j := f j]
     = map f [0..<Suc j] @ replicate (n - Suc j) z"
proof -
  have "n - j = Suc (n - Suc j)" using assms by simp
  then show ?thesis by (simp add: list_update_append)
qed

lemma fill_length: "j \<le> n \<Longrightarrow> length (map f [0..<j] @ replicate (n - j) z) = n"
  by simp

lemma make_slice_nat:
  "size' * int n \<le> maxAlloc \<Longrightarrow> make_slice size' (int n) z = Inr (replicate n z)"
  by (simp add: make_slice_def)

lemma make_slice_too_long:
  "maxAlloc < size' * n \<Longrightarrow> make_slice size' n z = Inl PanicMakeslice"
  by (simp add: make_slice_def)

lemma in_memory_rows:
  assumes "in_memory img" and "dim_inv img"
  shows "size_slice * height img \<le> maxAlloc" and "height img \<le> maxAlloc"
    and "0 < height img \<Longrightarrow> width img \<le> maxAlloc"
proof -
  show a: "size_slice * height img \<le> maxAlloc"
    using assms by (simp add: in_memory_def dim_inv_def)
  have "0 \<le> height img" using assms(2) by (auto simp: dim_inv_def)
  then show "height img \<le> maxAlloc" using a by simp
  show "width img \<le> maxAlloc" if "0 < height img"
  proof -
    have "data img \<noteq> []" using that assms(2) by (auto simp: dim_inv_def)
    then obtain row rows where "data img = row # rows" by (cases "data img") auto
    then show ?thesis using assms by (auto simp: in_memory_def dim_inv_def)
  qed
qed











section \<open>ToPBM\<close>

lemma map_nth_fun: "map (\<lambda>j. f (xs ! j)) [0..<length xs] = map f xs"
  by (rule nth_equalityI) simp_all

lemma ToPBM_row:
  fixes d :: "uint8 list list"
  assumes i: "i < length nd" and row: "nd ! i = replicate w False"
    and id: "i < length d" and w: "length (d ! i) = w"
  shows "for_each (count_up (int w)) (\<lambda>j pbmData.
            and_then (index2 d (int i) j) (\<lambda>p.
            store2 pbmData (int i) j (thr < p))) nd
         = Inr (nd[i := map (\<lambda>p. thr < p) (d ! i)])"
proof -
  define f where "f = (\<lambda>j. thr < d ! i ! j)"
  define P where "P = (\<lambda>k t. t = nd[i := map f [0..<k] @ replicate (w - k) False])"
  let ?body = "\<lambda>j pbmData.
            and_then (index2 d (int i) j) (\<lambda>p.
            store2 pbmData (int i) j (thr < p))"
  have "\<exists>s'. for_each (count_up (int w)) ?body nd = Inr s' \<and> P w s'"
  proof (rule for_each_rule)
    show "P 0 nd" using row i by (simp add: P_def flip: row)
  next
    fix k t assume k: "k < w" and t: "P k t"
    have a: "index2 d (int i) (int k) = Inr (d ! i ! k)"
      using id k w by (simp add: index2_nat)
    have b: "store2 t (int i) (int k) v
             = Inr (nd[i := (map f [0..<k] @ replicate (w - k) False)[k := v]])" for v
      using i k by (simp add: store2_nat t [unfolded P_def])
    show "\<exists>t'. ?body (int k) t = Inr t' \<and> P (Suc k) t'"
      using fill_step [OF k, of f False] by (simp add: a b and_then_def P_def f_def)
  qed
  then show ?thesis
    using map_nth_fun [of "\<lambda>p. thr < p" "d ! i"] by (auto simp: P_def f_def w)
qed

lemma ToPBM_map:
  assumes inv: "dim_inv pgm" and mem: "in_memory pgm"
  shows "ToPBM pgm =
     Inr \<lparr>data = map (map (\<lambda>p. word_of_int (max' pgm) div 2 < p)) (data pgm),
          width = width pgm, height = height pgm, magicNumber = ''P1''\<rparr>"
proof -
  define d where "d = data pgm"
  define h where "h = length d"
  define thr :: uint8 where "thr = word_of_int (max' pgm) div 2"
  define f where "f = (\<lambda>i. map (\<lambda>p. thr < p) (d ! i))"
  define P where "P = (\<lambda>k t. t = map f [0..<k] @ replicate (h - k) [])"
  let ?body = "\<lambda>i pbmData.
          and_then (make_slice size_bool (width pgm) False) (\<lambda>row.
          and_then (store pbmData i row) (\<lambda>pbmData.
          for_each (count_up (width pgm)) (\<lambda>j pbmData.
            and_then (index2 (data pgm) i j) (\<lambda>p.
            store2 pbmData i j (word_of_int (max' pgm) div 2 < p))) pbmData))"
  have hh: "height pgm = int h" using inv by (simp add: dim_inv_def h_def d_def)
  have ha: "size_slice * int h \<le> maxAlloc"
    using in_memory_rows(1) [OF mem inv] by (simp add: hh)
  have "\<exists>s'. for_each (count_up (int h)) ?body (replicate h []) = Inr s' \<and> P h s'"
  proof (rule for_each_rule)
    show "P 0 (replicate h [])" by (simp add: P_def)
  next
    fix k t assume k: "k < h" and t: "P k t"
    define w where "w = length (d ! k)"
    have ww: "width pgm = int w"
      using dim_inv_row [OF inv, of k] k by (simp add: w_def d_def h_def)
    have wa: "size_bool * int w \<le> maxAlloc"
      using in_memory_rows(3) [OF mem inv] k by (simp add: hh ww)
    have kt: "k < length t" using k by (simp add: t [unfolded P_def])
    have st: "store t (int k) (replicate w False) = Inr (t[k := replicate w False])"
      using kt by (simp add: store_nat)
    have "for_each (count_up (int w)) (\<lambda>j pbmData.
            and_then (index2 d (int k) j) (\<lambda>p.
            store2 pbmData (int k) j (thr < p))) (t[k := replicate w False])
          = Inr ((t[k := replicate w False])[k := map (\<lambda>p. thr < p) (d ! k)])"
      by (rule ToPBM_row) (use kt k in \<open>simp_all add: h_def w_def\<close>)
    then have "?body (int k) t = Inr (t[k := f k])"
      by (simp add: ww make_slice_nat [OF wa] and_then_def st f_def d_def thr_def)
    moreover have "P (Suc k) (t[k := f k])"
      using fill_step [OF k, of f "[]"] by (simp add: t [unfolded P_def] P_def)
    ultimately show "\<exists>t'. ?body (int k) t = Inr t' \<and> P (Suc k) t'" by simp
  qed
  then have "for_each (count_up (int h)) ?body (replicate h []) = Inr (map f [0..<h])"
    by (auto simp: P_def)
  moreover have "map f [0..<h] = map (map (\<lambda>p. thr < p)) d"
    unfolding f_def h_def by (rule map_nth_fun)
  ultimately show ?thesis
    by (simp add: ToPBM_def hh make_slice_nat [OF ha] and_then_def thr_def d_def)
qed

lemma ToPBM_too_long:
  assumes inv: "dim_inv pgm" and mem: "\<not> in_memory pgm"
  shows "ToPBM pgm = Inl PanicMakeslice"
proof (cases "maxAlloc < size_slice * height pgm")
  case True
  then show ?thesis by (simp add: ToPBM_def make_slice_too_long and_then_def)
next
  case False
  define h where "h = length (data pgm)"
  have hh: "height pgm = int h" using inv by (simp add: dim_inv_def h_def)
  have ha: "size_slice * int h \<le> maxAlloc" using False by (simp add: hh)
  have "\<not> list_all (\<lambda>row. int (length row) \<le> maxAlloc) (data pgm)"
    using mem ha by (simp add: in_memory_def h_def)
  then obtain row where row: "row \<in> set (data pgm)" "maxAlloc < int (length row)"
    by (auto simp: list_all_iff)
  have "int (length row) = width pgm"
    using inv row(1) by (simp add: dim_inv_def list_all_iff)
  then have wa: "maxAlloc < size_bool * width pgm" using row(2) by simp
  have "data pgm \<noteq> []" using row(1) by auto
  then have h0: "0 < int h" by (simp add: h_def)
  have "for_each (count_up (int h)) (\<lambda>i pbmData.
          and_then (make_slice size_bool (width pgm) False) (\<lambda>row.
          and_then (store pbmData i row) (\<lambda>pbmData.
          for_each (count_up (width pgm)) (\<lambda>j pbmData.
            and_then (index2 (data pgm) i j) (\<lambda>p.
            store2 pbmData i j (word_of_int (max' pgm) div 2 < p))) pbmData))) (replicate h [])
        = Inl PanicMakeslice"
    by (rule for_each_first_fails [OF h0]) (simp add: make_slice_too_long [OF wa] and_then_def)
  then show ?thesis
    by (simp add: ToPBM_def hh make_slice_nat [OF ha] and_then_def)
qed

lemma uint8_half_less:
  "(word_of_int m div 2 < (p :: uint8)) = (m mod 256 div 2 < uint p)"
proof -
  have "uint (word_of_int m :: uint8) = m mod 256"
    by (simp add: uint_word_of_int)
  then have "uint (word_of_int m div 2 :: uint8) = m mod 256 div 2"
    by (simp add: uint_div)
  then show ?thesis by (simp add: word_less_def)
qed

lemma At_nat:
  "y < length (data img) \<Longrightarrow> x < length (data img ! y) \<Longrightarrow>
   At img (int x) (int y) = Inr (data img ! y ! x)"
  by (simp add: At_def index2_nat)

text \<open>
  C7. On a grayscale image that satisfies the dimensional invariant, as every image in
  memory, \<open>ToPBM\<close> returns a bitmap with the same \<open>width\<close> and \<open>height\<close> and the magic number
  \<open>P1\<close>, whatever the magic number of the input; each pixel is the comparison of the input
  pixel with \<open>uint8(max) / 2\<close>, that is \<open>(max mod 256) div 2\<close>. When \<open>max\<close> is a byte, as the
  data model has it (1..255), the pixel at every in-bounds \<open>(x, y)\<close> is true exactly when the
  input's pixel there is greater than \<open>max div 2\<close>. Rows beyond the allocation limit, which
  no image in memory has, would make \<open>ToPBM\<close> panic.
\<close>

theorem ToPBM_threshold:
  assumes "dim_inv pgm"
  shows "(in_memory pgm \<longrightarrow>
          ToPBM pgm =
            Inr \<lparr>data = map (map (\<lambda>p. max' pgm mod 256 div 2 < uint p)) (data pgm),
                 width = width pgm, height = height pgm, magicNumber = ''P1''\<rparr> \<and>
          (0 \<le> max' pgm \<and> max' pgm \<le> 255 \<longrightarrow>
             (\<forall>x y. 0 \<le> x \<and> x < width pgm \<and> 0 \<le> y \<and> y < height pgm \<longrightarrow>
                (\<exists>p. At pgm x y = Inr p \<and>
                     and_then (ToPBM pgm) (\<lambda>pbm. At pbm x y) = Inr (max' pgm div 2 < uint p))))) \<and>
         (\<not> in_memory pgm \<longrightarrow> ToPBM pgm = Inl PanicMakeslice)"
proof -
  let ?pbm = "\<lparr>data = map (map (\<lambda>p. max' pgm mod 256 div 2 < uint p)) (data pgm),
                width = width pgm, height = height pgm, magicNumber = ''P1''\<rparr>"
  have 1: "ToPBM pgm = Inr ?pbm" if "in_memory pgm"
    by (simp add: ToPBM_map [OF assms that] uint8_half_less)
  have 2: "\<exists>p. At pgm x y = Inr p \<and> At ?pbm x y = Inr (max' pgm div 2 < uint p)"
    if m: "0 \<le> max' pgm \<and> max' pgm \<le> 255"
      and xy: "0 \<le> x \<and> x < width pgm \<and> 0 \<le> y \<and> y < height pgm" for x y
  proof -
    have mm: "max' pgm mod 256 = max' pgm" using m by simp
    have y: "nat y < length (data pgm)"
      using xy assms by (auto simp: dim_inv_def)
    have x: "nat x < length (data pgm ! nat y)"
      using xy dim_inv_row [OF assms y] by auto
    have "At pgm (int (nat x)) (int (nat y)) = Inr (data pgm ! nat y ! nat x)"
      by (rule At_nat [OF y x])
    moreover have "At ?pbm (int (nat x)) (int (nat y))
                   = Inr (max' pgm div 2 < uint (data pgm ! nat y ! nat x))"
      using At_nat [of "nat y" ?pbm "nat x"] x y by (simp add: mm)
    ultimately show ?thesis using xy by simp
  qed
  show ?thesis using 1 2 ToPBM_too_long [OF assms] by (simp add: and_then_def)
qed

text \<open>
  The image \<open>seven_pgm\<close> has the magic number \<open>P5\<close>, \<open>max = 7\<close> and the rows 1 2 3 and 4 5 6:
  the threshold is 3, and the pixel at \<open>x = 0\<close>, \<open>y = 1\<close> is 4. The image \<open>tall_pgm\<close> has more
  rows, all of them empty, than a slice may hold.
\<close>

theorem ToPBM_threshold_witness:
  "dim_inv seven_pgm \<and> in_memory seven_pgm \<and> 0 \<le> max' seven_pgm \<and> max' seven_pgm \<le> 255 \<and>
   ToPBM seven_pgm =
     Inr \<lparr>data = [[False, False, False], [True, True, True]], width = 3, height = 2,
          magicNumber = ''P1''\<rparr> \<and>
   At seven_pgm 0 1 = Inr 4 \<and>
   and_then (ToPBM seven_pgm) (\<lambda>pbm. At pbm 0 1) = Inr True \<and>
   dim_inv tall_pgm \<and> \<not> in_memory tall_pgm \<and> ToPBM tall_pgm = Inl PanicMakeslice"
proof -
  have i: "dim_inv seven_pgm" by (simp add: dim_inv_def seven_pgm_def)
  have a: "in_memory seven_pgm" by (simp add: in_memory_def seven_pgm_def maxAlloc_def)
  have m: "0 \<le> max' seven_pgm \<and> max' seven_pgm \<le> 255" by (simp add: seven_pgm_def)
  have 1: "ToPBM seven_pgm =
     Inr \<lparr>data = [[False, False, False], [True, True, True]], width = 3, height = 2,
          magicNumber = ''P1''\<rparr>"
    using ToPBM_threshold [OF i, THEN conjunct1] a by (simp add: seven_pgm_def)
  have 2: "At seven_pgm 0 1 = Inr 4"
    by (simp add: seven_pgm_def At_def index2_def index_def and_then_def)
  have "\<exists>p. At seven_pgm 0 1 = Inr p \<and>
           and_then (ToPBM seven_pgm) (\<lambda>pbm. At pbm 0 1) = Inr (max' seven_pgm div 2 < uint p)"
    using ToPBM_threshold [OF i, THEN conjunct1, rule_format, OF a, THEN conjunct2, rule_format,
        OF m, of 0 1]
    by (simp add: seven_pgm_def)
  then have 3: "and_then (ToPBM seven_pgm) (\<lambda>pbm. At pbm 0 1) = Inr True"
    by (simp add: 2) (simp add: seven_pgm_def)
  have i': "dim_inv tall_pgm"
    by (simp add: dim_inv_def tall_pgm_def list_all_iff)
  have a': "\<not> in_memory tall_pgm"
    by (simp add: in_memory_def tall_pgm_def maxAlloc_def)
  have 4: "ToPBM tall_pgm = Inl PanicMakeslice"
    using ToPBM_threshold [OF i', THEN conjunct2] a' by blast
  show ?thesis using i a m 1 2 3 i' a' 4 by blast
qed

section \<open>Save\<close>

lemma Save_row:
  fixes pgm :: PGM
  assumes i: "i < length (data pgm)" and n: "length (data pgm ! i) = n"
  shows "for_each (count_up (int n)) (\<lambda>j writer.
           and_then (index2 (data pgm) (int i) j) (\<lambda>p.
           Inr (writer @ Itoa (uint p) @ [LF]))) writer
         = Inr (writer @ concat (map (\<lambda>p. Itoa (uint p) @ [LF]) (data pgm ! i)))"
proof -
  define row where "row = data pgm ! i"
  define enc where "enc = (\<lambda>p :: uint8. Itoa (uint p) @ [LF])"
  define P where "P = (\<lambda>k t. t = writer @ concat (map enc (take k row)))"
  let ?body = "\<lambda>j writer.
           and_then (index2 (data pgm) (int i) j) (\<lambda>p.
           Inr (writer @ Itoa (uint p) @ [LF]))"
  have "\<exists>s'. for_each (count_up (int n)) ?body writer = Inr s' \<and> P n s'"
  proof (rule for_each_rule)
    show "P 0 writer" by (simp add: P_def)
  next
    fix k t assume k: "k < n" and t: "P k t"
    have kr: "k < length row" using k n by (simp add: row_def)
    have "index2 (data pgm) (int i) (int k) = Inr (row ! k)"
      using i kr by (simp add: index2_nat row_def)
    then show "\<exists>t'. ?body (int k) t = Inr t' \<and> P (Suc k) t'"
      using kr by (simp add: and_then_def P_def t [unfolded P_def] take_Suc_conv_app_nth enc_def)
  qed
  then show ?thesis using n by (auto simp: P_def row_def enc_def)
qed

lemma PGM_Save_lines:
  assumes inv: "dim_inv pgm"
  shows "PGM_Save pgm None =
     Inr (magicNumber pgm @ [LF] @ Itoa (width pgm) @ '' '' @ Itoa (height pgm) @ [LF]
          @ Itoa (max' pgm) @ [LF]
          @ concat (map (\<lambda>p. Itoa (uint p) @ [LF]) (concat (data pgm))))"
proof -
  define d where "d = data pgm"
  define h where "h = length d"
  define enc where "enc = (\<lambda>p :: uint8. Itoa (uint p) @ [LF])"
  define hdr where "hdr = magicNumber pgm @ [LF] @ Itoa (width pgm) @ '' '' @ Itoa (height pgm) @ [LF]
          @ Itoa (max' pgm) @ [LF]"
  define P where "P = (\<lambda>k t. t = hdr @ concat (map enc (concat (take k d))))"
  let ?body = "\<lambda>i writer.
               for_each (count_up (width pgm)) (\<lambda>j writer.
                 and_then (index2 (data pgm) i j) (\<lambda>p.
                 Inr (writer @ Itoa (uint p) @ [LF]))) writer"
  have hh: "height pgm = int h" using inv by (simp add: dim_inv_def h_def d_def)
  have "\<exists>s'. for_each (count_up (int h)) ?body hdr = Inr s' \<and> P h s'"
  proof (rule for_each_rule)
    show "P 0 hdr" by (simp add: P_def)
  next
    fix k t assume k: "k < h" and t: "P k t"
    have kd: "k < length (data pgm)" using k by (simp add: h_def d_def)
    have w: "width pgm = int (length (data pgm ! k))"
      using dim_inv_row [OF inv kd] by simp
    have "?body (int k) t = Inr (t @ concat (map enc (d ! k)))"
      unfolding w using Save_row [OF kd refl, of t] by (simp add: enc_def d_def)
    then show "\<exists>t'. ?body (int k) t = Inr t' \<and> P (Suc k) t'"
      using kd by (simp add: P_def t [unfolded P_def] take_Suc_conv_app_nth d_def)
  qed
  then show ?thesis
    by (auto simp: PGM_Save_def hh P_def hdr_def enc_def h_def d_def)
qed

text \<open>
  C1, as the code has it. For every grayscale image that satisfies the dimensional
  invariant, whatever its magic number (\<open>P5\<close> too), \<open>Save\<close> writes the three header lines
  and then, in row-major order, every pixel as its decimal digits followed by a newline.
\<close>

theorem PGM_Save_decimal_lines:
  assumes "dim_inv pgm"
  shows "PGM_Save pgm None =
     Inr (magicNumber pgm @ [LF] @ Itoa (width pgm) @ '' '' @ Itoa (height pgm) @ [LF]
          @ Itoa (max' pgm) @ [LF]
          @ concat (map (\<lambda>p. Itoa (uint p) @ [LF]) (concat (data pgm))))"
  by (rule PGM_Save_lines [OF assms])

lemma Itoa_digit: "0 \<le> i \<Longrightarrow> i < 10 \<Longrightarrow> Itoa i = [''0123456789'' ! nat i]"
  by (simp add: Itoa_def FormatUint.simps)

text \<open>The image \<open>seven_pgm\<close> has the magic number \<open>P5\<close>.\<close>

theorem PGM_Save_decimal_lines_witness:
  "dim_inv seven_pgm \<and> magicNumber seven_pgm = ''P5'' \<and>
   PGM_Save seven_pgm None =
     Inr (''P5'' @ [LF] @ ''3 2'' @ [LF] @ ''7'' @ [LF] @ ''1'' @ [LF] @ ''2'' @ [LF] @ ''3'' @ [LF]
          @ ''4'' @ [LF] @ ''5'' @ [LF] @ ''6'' @ [LF])"
proof -
  have i: "dim_inv seven_pgm" by (simp add: dim_inv_def seven_pgm_def)
  have "PGM_Save seven_pgm None =
     Inr (''P5'' @ [LF] @ ''3 2'' @ [LF] @ ''7'' @ [LF] @ ''1'' @ [LF] @ ''2'' @ [LF] @ ''3'' @ [LF]
          @ ''4'' @ [LF] @ ''5'' @ [LF] @ ''6'' @ [LF])"
    using PGM_Save_decimal_lines [OF i] by (simp add: seven_pgm_def Itoa_digit)
  then show ?thesis using i by (simp add: seven_pgm_def)
qed

text \<open>
  C1 as stated fails: for the \<open>P5\<close> image \<open>seven_pgm\<close> the bytes after the header are not
  the six raw pixel bytes 1 to 6, but six lines of decimal text.
\<close>

theorem PGM_Save_P5_not_raw:
  "PGM_Save seven_pgm None =
     Inr (''P5'' @ [LF] @ ''3 2'' @ [LF] @ ''7'' @ [LF] @ ''1'' @ [LF] @ ''2'' @ [LF] @ ''3'' @ [LF]
          @ ''4'' @ [LF] @ ''5'' @ [LF] @ ''6'' @ [LF]) \<and>
   PGM_Save seven_pgm None \<noteq>
     Inr (''P5'' @ [LF] @ ''3 2'' @ [LF] @ ''7'' @ [LF]
          @ [CHR 0x01, CHR 0x02, CHR 0x03, CHR 0x04, CHR 0x05, CHR 0x06])"
proof -
  have "PGM_Save seven_pgm None =
     Inr (''P5'' @ [LF] @ ''3 2'' @ [LF] @ ''7'' @ [LF] @ ''1'' @ [LF] @ ''2'' @ [LF] @ ''3'' @ [LF]
          @ ''4'' @ [LF] @ ''5'' @ [LF] @ ''6'' @ [LF])"
    by code_simp
  then show ?thesis by simp
qed

lemma foldl_append_enc: "foldl (\<lambda>out x. out @ enc x) out xs = out @ concat (map enc xs)"
  by (induction xs arbitrary: out) simp_all

lemma PBM_Save_rows:
  "PBM_Save pbm None =
     Inr (magicNumber pbm @ [LF] @ Itoa (width pbm) @ '' '' @ Itoa (height pbm) @ [LF]
          @ concat (map (\<lambda>row.
              concat (map (\<lambda>pixel.
                if magicNumber pbm = ''P1'' then (if pixel then ''1 '' else ''0 '')
                else (if pixel then [CHR 0xFF] else [CHR 0x00])) row) @ [LF]) (data pbm)))"
proof -
  define enc where "enc = (\<lambda>pixel.
                if magicNumber pbm = ''P1'' then (if pixel then ''1 '' else ''0 '')
                else (if pixel then [CHR 0xFF] else [CHR 0x00]))"
  have px: "(\<lambda>file pixel.
                      if magicNumber pbm = ''P1'' then
                        (if pixel then file @ ''1 '' else file @ ''0 '')
                      else
                        (if pixel then file @ [CHR 0xFF] else file @ [CHR 0x00]))
            = (\<lambda>file pixel. file @ enc pixel)"
    by (auto simp: enc_def fun_eq_iff)
  have rows: "foldl (\<lambda>file row. foldl (\<lambda>file pixel. file @ enc pixel) file row @ [LF]) out rs
              = out @ concat (map (\<lambda>row. concat (map enc row) @ [LF]) rs)" for out rs
    by (induction rs arbitrary: out) (simp_all add: foldl_append_enc)
  show ?thesis
    unfolding PBM_Save_def px Let_def rows by (simp add: enc_def)
qed

text \<open>
  C6. For every bitmap whose magic number is \<open>P4\<close>, \<open>Save\<close> writes the header and then,
  row by row, one byte for every pixel of \<open>data\<close>, \<open>0xFF\<close> for true and \<open>0x00\<close> for false;
  no bits are packed. Every row is closed by the newline the source writes after it.
\<close>

theorem PBM_Save_P4_byte_per_pixel:
  assumes "magicNumber pbm = ''P4''"
  shows "PBM_Save pbm None =
     Inr (''P4'' @ [LF] @ Itoa (width pbm) @ '' '' @ Itoa (height pbm) @ [LF]
          @ concat (map (\<lambda>row. map (\<lambda>pixel. if pixel then CHR 0xFF else CHR 0x00) row @ [LF])
                     (data pbm)))"
proof -
  have "concat (map (\<lambda>pixel. if pixel then [CHR 0xFF] else [CHR 0x00]) row)
        = map (\<lambda>pixel. if pixel then CHR 0xFF else CHR 0x00) row" for row
    by (induction row) simp_all
  then show ?thesis by (simp add: PBM_Save_rows assms)
qed

text \<open>The 2 by 2 bitmap \<open>p4_pbm\<close>.\<close>

theorem PBM_Save_P4_byte_per_pixel_witness:
  "magicNumber p4_pbm = ''P4'' \<and>
   PBM_Save p4_pbm None =
     Inr (''P4'' @ [LF] @ ''2 2'' @ [LF] @ [CHR 0xFF, CHR 0x00, LF, CHR 0x00, CHR 0xFF, LF])"
proof -
  have m: "magicNumber p4_pbm = ''P4''" by (simp add: p4_pbm_def)
  have "PBM_Save p4_pbm None =
     Inr (''P4'' @ [LF] @ ''2 2'' @ [LF] @ [CHR 0xFF, CHR 0x00, LF, CHR 0x00, CHR 0xFF, LF])"
    using PBM_Save_P4_byte_per_pixel [OF m] by (simp add: p4_pbm_def Itoa_digit)
  then show ?thesis using m by simp
qed

section \<open>The row decoder of the packed format\<close>

lemma quo_nonneg: "0 \<le> a \<Longrightarrow> 0 < b \<Longrightarrow> quo a b = a div b"
  by (cases "a = 0") (simp_all add: quo_def)

lemma wrap_row: "0 \<le> w \<Longrightarrow> w \<le> maxAlloc \<Longrightarrow> wrap (w + 7) = w + 7"
  by (simp add: wrap_def maxAlloc_def mod_pos_pos_trivial)

lemma parseP4Line_short:
  assumes "0 \<le> w" and "w \<le> maxAlloc" and "int (length line) < (w + 7) div 8"
  shows "parseP4Line line w = Inr []"
  using assms by (simp add: parseP4Line_def make_slice_def and_then_def quo_nonneg wrap_row)

lemma parseP4Line_long:
  assumes w0: "0 \<le> w" and wa: "w \<le> maxAlloc" and len: "(w + 7) div 8 \<le> int (length line)"
  shows "parseP4Line line w
         = Inr (map (\<lambda>i. bit (byte (line ! (i div 8))) (7 - i mod 8)) [0..<nat w])"
proof -
  define n where "n = nat w"
  define f where "f = (\<lambda>i. bit (byte (line ! (i div 8))) (7 - i mod 8))"
  define P where "P = (\<lambda>k t. t = map f [0..<k] @ replicate (n - k) False)"
  let ?body = "\<lambda>i data'.
         let byteIndex = quo i 8;
             bitPos = nat (7 - i mod 8)
         in and_then (index line byteIndex) (\<lambda>b.
            let bit' = drop_bit bitPos (word_of_nat (byte b) :: uint8) AND 1
            in store data' i (bit' = 1))"
  have wn: "w = int n" using w0 by (simp add: n_def)
  have "\<exists>s'. for_each (count_up (int n)) ?body (replicate n False) = Inr s' \<and> P n s'"
  proof (rule for_each_rule)
    show "P 0 (replicate n False)" by (simp add: P_def)
  next
    fix k t assume k: "k < n" and t: "P k t"
    have "int k div 8 < (w + 7) div 8" using k wn by linarith
    then have kb: "k div 8 < length line" using len by (simp add: zdiv_int) 
    have q: "quo (int k) 8 = int (k div 8)" by (simp add: quo_nonneg zdiv_int)
    have "int k mod 8 = int (k mod 8)" by (simp add: zmod_int)
    then have bp: "nat (7 - int k mod 8) = 7 - k mod 8"
      by simp
    have a: "index line (int (k div 8)) = Inr (line ! (k div 8))"
      using kb by (simp add: index_nat)
    have b: "store t (int k) v = Inr ((map f [0..<k] @ replicate (n - k) False)[k := v])" for v
      using k by (simp add: store_nat t [unfolded P_def])
    have c: "(drop_bit (7 - k mod 8) (word_of_nat (byte (line ! (k div 8))) :: uint8) AND 1 = 1)
             = f k"
    proof -
      have "7 - k mod 8 < 8" by simp
      then show ?thesis
        by (simp add: f_def bit_simps flip: bit_iff_and_drop_bit_eq_1)
    qed
    show "\<exists>t'. ?body (int k) t = Inr t' \<and> P (Suc k) t'"
      unfolding Let_def q bp using fill_step [OF k, of f False]
      by (simp add: a b c and_then_def P_def)
  qed
  then show ?thesis
    using len w0 wa wrap_row [OF w0 wa]
    by (auto simp: parseP4Line_def make_slice_def and_then_def quo_nonneg P_def f_def wn)
qed





section \<open>The scanner\<close>

lemma scanned_0: "scanned s 0 = s"
  by (simp add: scanned_def)

lemma scanned_Suc: "scanned s (Suc k) = snd (Scan (scanned s k))"
  by (simp add: scanned_def)

lemma scanned_add: "scanned (scanned s a) b = scanned s (a + b)"
  by (induction b) (simp_all add: scanned_0 scanned_Suc)

lemma Scan_at_end: "at_end s \<Longrightarrow> Scan s = (False, s\<lparr>token := []\<rparr>)"
  by (simp add: at_end_def Scan_def ScanLines_def MaxScanTokenSize_def)

lemma at_end_Scan: "at_end s \<Longrightarrow> at_end (snd (Scan s)) \<and> Text (snd (Scan s)) = []"
  by (simp add: Scan_at_end Text_def) (simp add: at_end_def)

lemma at_end_scanned: "at_end s \<Longrightarrow> at_end (scanned s k)"
  by (induction k) (simp_all add: scanned_0 scanned_Suc at_end_Scan)

lemma Text_past_end: "at_end s \<Longrightarrow> Text (scanned s (Suc k)) = []"
  by (simp add: scanned_Suc at_end_Scan at_end_scanned)

lemma line_of_past_end:
  assumes "at_end (scanned (NewScanner file) k)" and "k \<le> m"
  shows "line_of file m = []"
proof -
  have "scanned (NewScanner file) (Suc m)
        = scanned (scanned (NewScanner file) k) (Suc (m - k))"
    using assms(2) by (simp add: scanned_add)
  then show ?thesis
    using Text_past_end [OF assms(1)] by (simp add: line_of_def)
qed

lemma Atoi_empty: "Atoi [] = (0, Some ErrSyntax)"
  by (simp add: Atoi_def)

section \<open>Loops over any list\<close>

lemma for_each_rule_list:
  assumes init: "P 0 s"
    and step: "\<And>k t. k < length xs \<Longrightarrow> P k t \<Longrightarrow> \<exists>t'. body (xs ! k) t = Inr t' \<and> P (Suc k) t'"
  shows "\<exists>s'. for_each xs body s = Inr s' \<and> P (length xs) s'"
  using step
proof (induction xs rule: rev_induct)
  case Nil
  then show ?case using init by simp
next
  case (snoc x xs)
  have "\<exists>s'. for_each xs body s = Inr s' \<and> P (length xs) s'"
  proof (rule snoc.IH)
    fix k t assume "k < length xs" "P k t"
    then show "\<exists>t'. body (xs ! k) t = Inr t' \<and> P (Suc k) t'"
      using snoc.prems [of k t] by (simp add: nth_append)
  qed
  then obtain s1 where s1: "for_each xs body s = Inr s1" "P (length xs) s1"
    by blast
  from snoc.prems [of "length xs" s1] s1(2)
  obtain s2 where s2: "body x s1 = Inr s2" "P (Suc (length xs)) s2"
    by auto
  show ?case
    by (simp add: for_each_append s1 s2)
qed

section \<open>ReadPGM\<close>

lemma ReadPGM_row:
  fixes d :: "uint8 list list"
  assumes i: "i < length d" and row: "d ! i = replicate w 0"
  shows "for_each (count_up (int w)) (\<lambda>j (scanner, data').
            let scanner = snd (Scan scanner);
                val = fst (Atoi (Text scanner))
            in and_then (store2 data' (int i) j (word_of_int val)) (\<lambda>data'.
               Inr (scanner, data'))) (sc, d)
         = Inr (scanned sc w,
                d[i := map (\<lambda>j. word_of_int (fst (Atoi (Text (scanned sc (Suc j)))))) [0..<w]])"
proof -
  define f :: "nat \<Rightarrow> uint8" where "f = (\<lambda>j. word_of_int (fst (Atoi (Text (scanned sc (Suc j))))))"
  define P where "P = (\<lambda>k (t :: Scanner \<times> uint8 list list).
     t = (scanned sc k, d[i := map f [0..<k] @ replicate (w - k) 0]))"
  let ?body = "\<lambda>j (scanner, data').
            let scanner = snd (Scan scanner);
                val = fst (Atoi (Text scanner))
            in and_then (store2 data' (int i) j (word_of_int val)) (\<lambda>data'.
               Inr (scanner, data'))"
  have "\<exists>s'. for_each (count_up (int w)) ?body (sc, d) = Inr s' \<and> P w s'"
  proof (rule for_each_rule)
    show "P 0 (sc, d)" using i by (simp add: P_def scanned_0 flip: row)
  next
    fix k t assume k: "k < w" and t: "P k t"
    have b: "store2 (d[i := xs]) (int i) (int k) v = Inr (d[i := xs[k := v]])"
      if "length xs = w" for v and xs :: "uint8 list"
      using i k that by (simp add: store2_nat)
    have "?body (int k) t
          = Inr (scanned sc (Suc k), d[i := (map f [0..<k] @ replicate (w - k) 0)[k := f k]])"
      using k by (simp add: t [unfolded P_def] Let_def b and_then_def scanned_Suc f_def)
    then show "\<exists>t'. ?body (int k) t = Inr t' \<and> P (Suc k) t'"
      by (simp add: P_def fill_step [OF k])
  qed
  then show ?thesis by (auto simp: P_def f_def)
qed

lemma ReadPGM_rows:
  fixes sc :: Scanner
  assumes wa: "size_uint8 * int w \<le> maxAlloc"
  shows "for_each (count_up (int h)) (\<lambda>i (scanner, data').
            and_then (make_slice size_uint8 (int w) 0) (\<lambda>row.
            and_then (store data' i row) (\<lambda>data'.
            for_each (count_up (int (length row))) (\<lambda>j (scanner, data').
              let scanner = snd (Scan scanner);
                  val = fst (Atoi (Text scanner))
              in and_then (store2 data' i j (word_of_int val)) (\<lambda>data'.
                 Inr (scanner, data'))) (scanner, data')))) (sc, replicate h ([] :: uint8 list))
         = Inr (scanned sc (h * w),
                map (\<lambda>i. map (\<lambda>j. word_of_int (fst (Atoi (Text (scanned sc (Suc (i * w + j)))))))
                           [0..<w]) [0..<h])"
proof -
  define f :: "nat \<Rightarrow> uint8 list" where
    "f = (\<lambda>i. map (\<lambda>j. word_of_int (fst (Atoi (Text (scanned sc (Suc (i * w + j))))))) [0..<w])"
  define P where "P = (\<lambda>k (t :: Scanner \<times> uint8 list list).
     t = (scanned sc (k * w), map f [0..<k] @ replicate (h - k) []))"
  let ?body = "\<lambda>i (scanner, data').
            and_then (make_slice size_uint8 (int w) 0) (\<lambda>row.
            and_then (store data' i row) (\<lambda>data'.
            for_each (count_up (int (length row))) (\<lambda>j (scanner, data').
              let scanner = snd (Scan scanner);
                  val = fst (Atoi (Text scanner))
              in and_then (store2 data' i j (word_of_int val)) (\<lambda>data'.
                 Inr (scanner, data'))) (scanner, data')))"
  have "\<exists>s'. for_each (count_up (int h)) ?body (sc, replicate h []) = Inr s' \<and> P h s'"
  proof (rule for_each_rule)
    show "P 0 (sc, replicate h [])" by (simp add: P_def scanned_0)
  next
    fix k t assume k: "k < h" and t: "P k t"
    define d where "d = map f [0..<k] @ replicate (h - k) ([] :: uint8 list)"
    have kd: "k < length d" using k by (simp add: d_def)
    have st: "store d (int k) (replicate w 0) = Inr (d[k := replicate w 0])"
      using kd by (simp add: store_nat)
    let ?inner = "\<lambda>j (scanner, data').
            let scanner = snd (Scan scanner);
                val = fst (Atoi (Text scanner))
            in and_then (store2 data' (int k) j (word_of_int val)) (\<lambda>data'.
               Inr (scanner, data'))"
    have "?body (int k) t
          = for_each (count_up (int w)) ?inner (scanned sc (k * w), d[k := replicate w 0])"
      by (simp add: t [unfolded P_def] make_slice_nat [OF wa] and_then_def st flip: d_def)
    also have "\<dots> = Inr (scanned (scanned sc (k * w)) w,
                (d[k := replicate w 0])[k := map (\<lambda>j. word_of_int
                    (fst (Atoi (Text (scanned (scanned sc (k * w)) (Suc j)))))) [0..<w]])"
      by (rule ReadPGM_row) (use kd in simp_all)
    also have "\<dots> = Inr (scanned sc (Suc k * w), d[k := f k])"
      by (simp add: f_def scanned_add add.commute)
    finally have "?body (int k) t = Inr (scanned sc (Suc k * w), d[k := f k])" .
    moreover have "d[k := f k] = map f [0..<Suc k] @ replicate (h - Suc k) []"
      unfolding d_def by (rule fill_step [OF k])
    ultimately show "\<exists>t'. ?body (int k) t = Inr t' \<and> P (Suc k) t'"
      by (simp add: P_def)
  qed
  then show ?thesis by (auto simp: P_def f_def)
qed

lemma and_then_Inr: "and_then (Inr x) f = f x"
  by (simp add: and_then_def)

lemma and_then_Inl: "and_then (Inl e) f = Inl e"
  by (simp add: and_then_def)

lemma line_of_Text: "Text (scanned (NewScanner file) (Suc k)) = line_of file k"
  by (simp add: line_of_def)

lemma ReadPGM_result:
  assumes magic: "line_of file 0 = ''P2'' \<or> line_of file 0 = ''P5''"
    and dims: "2 \<le> length (Fields (line_of file 1))"
    and w: "fst (Atoi (Fields (line_of file 1) ! 0)) = int w"
    and h: "fst (Atoi (Fields (line_of file 1) ! 1)) = int h"
    and wa: "size_uint8 * int w \<le> maxAlloc" and ha: "size_slice * int h \<le> maxAlloc"
  shows "ReadPGM (Inr file) =
     Inr \<lparr>data = map (\<lambda>i. map (\<lambda>j. word_of_int (fst (Atoi (line_of file (3 + (i * w + j))))))
                          [0..<w]) [0..<h],
          width = int w, height = int h, magicNumber = line_of file 0,
          max' = fst (Atoi (line_of file 2))\<rparr>"
proof -
  define s0 where "s0 = NewScanner file"
  define magic' where "magic' = line_of file 0"
  define dims' where "dims' = Fields (line_of file 1)"
  define maxl where "maxl = line_of file 2"
  let ?rows = "\<lambda>i (scanner, data').
            and_then (make_slice size_uint8 (int w) 0) (\<lambda>row.
            and_then (store data' i row) (\<lambda>data'.
            for_each (count_up (int (length row))) (\<lambda>j (scanner, data').
              let scanner = snd (Scan scanner);
                  val = fst (Atoi (Text scanner))
              in and_then (store2 data' i j (word_of_int val)) (\<lambda>data'.
                 Inr (scanner, data'))) (scanner, data')))"
  have e1: "snd (Scan s0) = scanned s0 (Suc 0)"
    and e2: "snd (Scan (scanned s0 (Suc 0))) = scanned s0 (Suc (Suc 0))"
    and e3: "snd (Scan (scanned s0 (Suc (Suc 0)))) = scanned s0 (Suc (Suc (Suc 0)))"
    by (simp_all add: scanned_Suc scanned_0)
  have t1: "Text (scanned s0 (Suc 0)) = magic'"
    and t2: "Fields (Text (scanned s0 (Suc (Suc 0)))) = dims'"
    and t3: "Text (scanned s0 (Suc (Suc (Suc 0)))) = maxl"
    by (simp_all add: s0_def line_of_def numeral_2_eq_2 magic'_def dims'_def maxl_def)
  have i0: "index dims' 0 = Inr (dims' ! 0)" and i1: "index dims' 1 = Inr (dims' ! Suc 0)"
    using dims by (auto simp: index_def dims'_def)
  have w': "fst (Atoi (dims' ! 0)) = int w" and h': "fst (Atoi (dims' ! Suc 0)) = int h"
    using w h by (simp_all add: dims'_def)
  have m: "magic' = ''P2'' \<or> magic' = ''P5''"
    using magic by (simp add: magic'_def)
  have "ReadPGM (Inr file) =
     and_then (for_each (count_up (int h)) ?rows
                 (scanned s0 (Suc (Suc (Suc 0))), replicate h ([] :: uint8 list)))
       (\<lambda>(scanner, data').
          Inr \<lparr>data = data', width = int w, height = int h, magicNumber = magic',
               max' = fst (Atoi maxl)\<rparr>)"
    using m
    by (auto simp add: ReadPGM_def Let_def e1 e2 e3 t1 t2 t3 i0 i1 and_then_Inr w' h'
          make_slice_nat [OF ha] simp flip: s0_def)
  also have "\<dots> = Inr \<lparr>data = map (\<lambda>i. map (\<lambda>j. word_of_int
                      (fst (Atoi (Text (scanned (scanned s0 (Suc (Suc (Suc 0)))) (Suc (i * w + j)))))))
                          [0..<w]) [0..<h],
          width = int w, height = int h, magicNumber = magic',
          max' = fst (Atoi maxl)\<rparr>"
    by (simp only: ReadPGM_rows [OF wa]) (simp add: and_then_Inr)
  also have "\<dots> = Inr \<lparr>data = map (\<lambda>i. map (\<lambda>j. word_of_int (fst (Atoi (line_of file (3 + (i * w + j))))))
                          [0..<w]) [0..<h],
          width = int w, height = int h, magicNumber = magic',
          max' = fst (Atoi maxl)\<rparr>"
    by (simp add: scanned_add s0_def line_of_def numeral_3_eq_3)
  finally show ?thesis by (simp add: magic'_def maxl_def)
qed

section \<open>ReadPBM\<close>

lemma ReadPBM_rows:
  fixes sc :: Scanner
  assumes rows: "\<And>i. i < h \<Longrightarrow>
      (if magic = ''P1'' then parseP1Line (Text (scanned sc (Suc i))) w
       else parseP4Line (Text (scanned sc (Suc i))) w) = Inr (rows i)"
  shows "for_each (count_up (int h)) (\<lambda>i (scanner, data').
            let scanner = snd (Scan scanner);
                line = Text scanner
            in and_then
                 (if magic = ''P1'' then parseP1Line line w
                  else parseP4Line line w) (\<lambda>row.
               and_then (store data' i row) (\<lambda>data'.
               Inr (scanner, data')))) (sc, replicate h [])
         = Inr (scanned sc h, map rows [0..<h])"
proof -
  define P where "P = (\<lambda>k (t :: Scanner \<times> bool list list).
     t = (scanned sc k, map rows [0..<k] @ replicate (h - k) []))"
  let ?body = "\<lambda>i (scanner, data').
            let scanner = snd (Scan scanner);
                line = Text scanner
            in and_then
                 (if magic = ''P1'' then parseP1Line line w
                  else parseP4Line line w) (\<lambda>row.
               and_then (store data' i row) (\<lambda>data'.
               Inr (scanner, data')))"
  have "\<exists>s'. for_each (count_up (int h)) ?body (sc, replicate h []) = Inr s' \<and> P h s'"
  proof (rule for_each_rule)
    show "P 0 (sc, replicate h [])" by (simp add: P_def scanned_0)
  next
    fix k t assume k: "k < h" and t: "P k t"
    have st: "store (map rows [0..<k] @ replicate (h - k) []) (int k) v
              = Inr ((map rows [0..<k] @ replicate (h - k) [])[k := v])" for v
      using k by (simp add: store_nat)
    have "?body (int k) t
          = Inr (scanned sc (Suc k), (map rows [0..<k] @ replicate (h - k) [])[k := rows k])"
      using rows [OF k]
      by (cases "magic = ''P1''")
         (simp_all add: t [unfolded P_def] Let_def scanned_Suc and_then_Inr st)
    then show "\<exists>t'. ?body (int k) t = Inr t' \<and> P (Suc k) t'"
      by (simp add: P_def fill_step [OF k])
  qed
  then show ?thesis by (auto simp: P_def)
qed

lemma ReadPBM_result:
  assumes magic: "line_of file 0 = ''P1'' \<or> line_of file 0 = ''P4''"
    and dims: "Fields (line_of file 1) = [ws, hs]"
    and w: "Atoi ws = (w, None)" and h: "Atoi hs = (int h, None)"
    and rows: "\<And>i. i < h \<Longrightarrow>
      (if line_of file 0 = ''P1'' then parseP1Line (line_of file (2 + i)) w
       else parseP4Line (line_of file (2 + i)) w) = Inr (rows i)"
    and ha: "size_slice * int h \<le> maxAlloc"
  shows "ReadPBM (Inr file) =
     Inr \<lparr>data = map rows [0..<h], width = w, height = int h, magicNumber = line_of file 0\<rparr>"
proof -
  define s0 where "s0 = NewScanner file"
  define magic' where "magic' = line_of file 0"
  let ?rows = "\<lambda>i (scanner, data').
            let scanner = snd (Scan scanner);
                line = Text scanner
            in and_then
                 (if magic' = ''P1'' then parseP1Line line w
                  else parseP4Line line w) (\<lambda>row.
               and_then (store data' i row) (\<lambda>data'.
               Inr (scanner, data')))"
  have e1: "snd (Scan s0) = scanned s0 (Suc 0)"
    and e2: "snd (Scan (scanned s0 (Suc 0))) = scanned s0 (Suc (Suc 0))"
    by (simp_all add: scanned_Suc scanned_0)
  have t1: "Text (scanned s0 (Suc 0)) = magic'"
    and t2: "Fields (Text (scanned s0 (Suc (Suc 0)))) = [ws, hs]"
    using dims by (simp_all add: s0_def line_of_def magic'_def)
  have m: "magic' = ''P1'' \<or> magic' = ''P4''"
    using magic by (simp add: magic'_def)
  have r: "(if magic' = ''P1'' then parseP1Line (Text (scanned (scanned s0 (Suc (Suc 0))) (Suc i))) w
       else parseP4Line (Text (scanned (scanned s0 (Suc (Suc 0))) (Suc i))) w) = Inr (rows i)"
    if "i < h" for i
    using rows [OF that]
    by (cases "line_of file 0 = ''P1''")
       (simp_all add: scanned_add s0_def line_of_def magic'_def)
  have "ReadPBM (Inr file) =
     and_then (for_each (count_up (int h)) ?rows (scanned s0 (Suc (Suc 0)), replicate h []))
       (\<lambda>(scanner, data').
          Inr \<lparr>data = data', width = w, height = int h, magicNumber = magic'\<rparr>)"
    using m
    by (auto simp add: ReadPBM_def Let_def e1 e2 t1 t2 and_then_Inr w h make_slice_nat [OF ha]
          simp flip: s0_def)
  also have "\<dots> = Inr \<lparr>data = map rows [0..<h], width = w, height = int h, magicNumber = magic'\<rparr>"
    by (simp only: ReadPBM_rows [of h magic' "scanned s0 (Suc (Suc 0))" w rows, OF r])
       (simp add: and_then_Inr)
  finally show ?thesis by (simp add: magic'_def)
qed

lemma ReadPBM_bad_count:
  assumes "line_of file 0 = ''P1'' \<or> line_of file 0 = ''P4''"
    and "length (Fields (line_of file 1)) \<noteq> 2"
  shows "ReadPBM (Inr file) = Inl (New ''Invalid dimensions'')"
  using assms
  by (auto simp: ReadPBM_def Let_def line_of_def scanned_Suc scanned_0)

lemma ReadPBM_bad_width:
  assumes "line_of file 0 = ''P1'' \<or> line_of file 0 = ''P4''"
    and "length (Fields (line_of file 1)) = 2"
    and "snd (Atoi (Fields (line_of file 1) ! 0)) \<noteq> None"
  shows "ReadPBM (Inr file) = Inl (New ''Invalid width'')"
  using assms
  by (auto simp: ReadPBM_def Let_def line_of_def scanned_Suc scanned_0 split: prod.splits)

lemma ReadPBM_bad_height:
  assumes "line_of file 0 = ''P1'' \<or> line_of file 0 = ''P4''"
    and "length (Fields (line_of file 1)) = 2"
    and "snd (Atoi (Fields (line_of file 1) ! 0)) = None"
    and "snd (Atoi (Fields (line_of file 1) ! 1)) \<noteq> None"
  shows "ReadPBM (Inr file) = Inl (New ''Invalid height'')"
  using assms
  by (auto simp: ReadPBM_def Let_def line_of_def scanned_Suc scanned_0 split: prod.splits)

lemma ReadPBM_success_header:
  assumes "ReadPBM (Inr file) = Inr pbm"
  shows "(line_of file 0 = ''P1'' \<or> line_of file 0 = ''P4'') \<and>
         magicNumber pbm = line_of file 0 \<and>
         length (Fields (line_of file 1)) = 2 \<and>
         Atoi (Fields (line_of file 1) ! 0) = (width pbm, None) \<and>
         Atoi (Fields (line_of file 1) ! 1) = (height pbm, None) \<and>
         0 \<le> height pbm"
  using assms
  by (auto simp: ReadPBM_def Let_def line_of_def scanned_Suc scanned_0 and_then_def make_slice_def
           split: prod.splits if_splits sum.splits)

section \<open>parseP1Line on lines no longer than the row\<close>

text \<open>
  The loop of \<^verbatim>\<open>parseP1Line\<close> visits the byte offset of every rune of the line. Only the
  one-byte rune \<open>1\<close> compares equal to \<^verbatim>\<open>'1'\<close>, and the bytes inside a longer rune are
  continuation bytes, so the row marks exactly the bytes of the line that are \<open>1\<close>.
\<close>

lemma byte_eq_iff: "byte c = byte d \<longleftrightarrow> c = d"
  by (simp add: byte_def)

lemma byte_one: "byte CHR ''1'' = 49"
  by (simp add: byte_def)

lemma decoderune_width:
  "1 \<le> snd (decoderune (c # s)) \<and> snd (decoderune (c # s)) \<le> length (c # s)"
  by (auto simp: decoderune_def Let_def split: list.splits)

lemma decoderune_one:
  "fst (decoderune (c # s)) = byte CHR ''1'' \<longleftrightarrow> c = CHR ''1''"
proof (cases "byte c < 0x80")
  case True
  then show ?thesis by (simp add: decoderune_def byte_eq_iff)
next
  case False
  then have "c \<noteq> CHR ''1''" by (auto simp: byte_one)
  moreover have "fst (decoderune (c # s)) \<noteq> 49"
    using False by (auto simp: decoderune_def Let_def RuneError_def split: list.splits)
  ultimately show ?thesis by (simp add: byte_one)
qed

lemma decoderune_cont:
  assumes "0 < j" and "j < snd (decoderune (c # s))"
  shows "(c # s) ! j \<noteq> CHR ''1''"
proof -
  have "cont ((c # s) ! j)"
    using assms
    by (auto simp: decoderune_def Let_def nth_Cons less_Suc_eq split: list.splits if_splits nat.splits)
  then show ?thesis by (auto simp: cont_def byte_one)
qed

lemma P1_loop:
  assumes "k + length s \<le> length d" and "\<And>j. k \<le> j \<Longrightarrow> j < length d \<Longrightarrow> \<not> d ! j"
  shows "\<exists>r. for_each (range_from (int k) s)
               (\<lambda>(i, char) data'. store data' i (char = byte CHR ''1'')) d = Inr r \<and>
             length r = length d \<and>
             (\<forall>j < length d. r ! j =
                (if k \<le> j \<and> j < k + length s then s ! (j - k) = CHR ''1'' else d ! j))"
  using assms
proof (induction "length s" arbitrary: s k d rule: less_induct)
  case less
  show ?case
  proof (cases s)
    case Nil
    then show ?thesis by auto
  next
    case (Cons c s1)
    define n where "n = snd (decoderune (c # s1))"
    define s' where "s' = drop (n - 1) s1"
    define d' where "d' = d[k := (c = CHR ''1'')]"
    have n: "1 \<le> n" "n \<le> length (c # s1)"
      using decoderune_width [of c s1] by (simp_all add: n_def)
    have kd: "k < length d" using less.prems(1) Cons by simp
    have len': "length s' = length s - n" using n by (simp add: s'_def Cons)
    have st: "store d (int k) (fst (decoderune (c # s1)) = byte CHR ''1'') = Inr d'"
      using kd by (simp add: store_nat decoderune_one d'_def)
    have "\<exists>r. for_each (range_from (int (k + n)) s')
               (\<lambda>(i, char) data'. store data' i (char = byte CHR ''1'')) d' = Inr r \<and>
             length r = length d' \<and>
             (\<forall>j < length d'. r ! j =
                (if k + n \<le> j \<and> j < k + n + length s' then s' ! (j - (k + n)) = CHR ''1''
                 else d' ! j))"
    proof (rule less.hyps)
      show "length s' < length s" using n by (simp add: len' Cons)
      show "k + n + length s' \<le> length d'" using less.prems(1) n by (simp add: len' d'_def Cons)
      show "\<not> d' ! j" if "k + n \<le> j" "j < length d'" for j
        using that less.prems(2) [of j] n by (simp add: d'_def)
    qed
    then obtain r where r: "for_each (range_from (int (k + n)) s')
               (\<lambda>(i, char) data'. store data' i (char = byte CHR ''1'')) d' = Inr r"
      "length r = length d'"
      "\<And>j. j < length d' \<Longrightarrow> r ! j =
                (if k + n \<le> j \<and> j < k + n + length s' then s' ! (j - (k + n)) = CHR ''1''
                 else d' ! j)"
      by blast
    have run: "for_each (range_from (int k) s)
               (\<lambda>(i, char) data'. store data' i (char = byte CHR ''1'')) d = Inr r"
      using r(1) st by (simp add: Cons n_def s'_def)
    have "r ! j = (if k \<le> j \<and> j < k + length s then s ! (j - k) = CHR ''1'' else d ! j)"
      if j: "j < length d" for j
    proof -
      consider "j < k" | "j = k" | "k < j" "j < k + n" | "k + n \<le> j" "j < k + length s"
        | "k + length s \<le> j"
        by linarith
      then show ?thesis
      proof cases
        case 1
        then show ?thesis using r(3) [of j] j by (simp add: d'_def)
      next
        case 2
        then show ?thesis using r(3) [of j] j n by (simp add: d'_def Cons)
      next
        case 3
        have "(c # s1) ! (j - k) \<noteq> CHR ''1''"
          by (rule decoderune_cont) (use 3 in \<open>simp_all add: n_def\<close>)
        moreover have "\<not> d ! j" using less.prems(2) [of j] 3 j by simp
        moreover have "j - k < length s" using 3 n by (simp add: Cons)
        ultimately show ?thesis using r(3) [of j] j 3 by (simp add: d'_def Cons)
      next
        case 4
        have "j - k = Suc (n - 1 + (j - (k + n)))" using 4 n by simp
        moreover have "n - 1 + (j - (k + n)) < length s1" using 4 n by (simp add: Cons)
        ultimately have "s' ! (j - (k + n)) = s ! (j - k)"
          by (simp add: s'_def Cons)
        then show ?thesis using r(3) [of j] j 4 len' by (simp add: d'_def)
      next
        case 5
        then show ?thesis using r(3) [of j] j n len' by (simp add: d'_def Cons)
      qed
    qed
    then show ?thesis using run r(2) by (simp add: d'_def)
  qed
qed

lemma parseP1Line_bytes:
  assumes "length line \<le> n" and na: "size_bool * int n \<le> maxAlloc"
  shows "parseP1Line line (int n) =
         Inr (map (\<lambda>j. j < length line \<and> line ! j = CHR ''1'') [0..<n])"
proof -
  obtain r where r: "for_each (range_from (int 0) line)
               (\<lambda>(i, char) data'. store data' i (char = byte CHR ''1'')) (replicate n False) = Inr r"
    "length r = n"
    "\<And>j. j < n \<Longrightarrow> r ! j =
        (if 0 \<le> j \<and> j < 0 + length line then line ! (j - 0) = CHR ''1''
         else replicate n False ! j)"
    using P1_loop [of 0 line "replicate n False"] assms(1) by auto
  have "r = map (\<lambda>j. j < length line \<and> line ! j = CHR ''1'') [0..<n]"
    by (rule nth_equalityI) (simp_all add: r(2) r(3))
  then show ?thesis
    using r(1)
    by (simp add: parseP1Line_def make_slice_nat [OF na] and_then_Inr range_string_def)
qed

lemma parseP1Line_empty:
  "int n \<le> maxAlloc \<Longrightarrow> parseP1Line [] (int n) = Inr (replicate n False)"
  using parseP1Line_bytes [of "[]" n] by (simp add: map_replicate_const)

lemma parseP4Line_empty:
  assumes "int n \<le> maxAlloc"
  shows "parseP4Line [] (int n) = Inr []"
proof (cases "n = 0")
  case True
  then show ?thesis
    using parseP4Line_long [of 0 "[]"] by (simp add: maxAlloc_def)
next
  case False
  then have "0 < (int n + 7) div 8" by linarith
  then show ?thesis using parseP4Line_short [of "int n" "[]"] assms by simp
qed

section \<open>Evaluating the decoders on concrete files\<close>

lemma scanned_numeral: "scanned s (numeral n) = snd (Scan (scanned s (pred_numeral n)))"
  by (simp add: numeral_eq_Suc scanned_Suc)

lemmas scan_eval = line_of_def scanned_0 scanned_Suc scanned_numeral NewScanner_def Scan_def
  ScanLines_def MaxScanTokenSize_def dropCR_def Text_def at_end_def

lemma bits_file_lines:
  "line_of bits_file 0 = ''P1''" "line_of bits_file (Suc 0) = ''2 2''"
  "line_of bits_file 2 = ''10''" "line_of bits_file 3 = ''01''"
  "line_of bits_file (Suc (Suc 0)) = ''10''" "line_of bits_file (Suc (Suc (Suc 0))) = ''01''"
  by (simp_all add: bits_file_def scan_eval)

lemma short_gray_file_lines:
  "line_of short_gray_file 0 = ''P2''" "line_of short_gray_file (Suc 0) = ''2 1''"
  "line_of short_gray_file 2 = ''255''" "line_of short_gray_file 3 = ''7''"
  "at_end (scanned (NewScanner short_gray_file) 4)"
  by (simp_all add: short_gray_file_def scan_eval)

lemmas fields_eval = Fields_def FieldsFunc_def range_string_def decoderune_def byte_def
  IsSpace_def substring_def RuneError_def

lemma Fields_2_2: "Fields ''2 2'' = [''2'', ''2'']"
  by (simp add: fields_eval)

lemmas atoi_eval = Atoi_def is_digit_def byte_def maxUint64_def

lemma Atoi_2: "Atoi ''2'' = (2, None)" 
  by (simp add: atoi_eval)

lemma Atoi_255: "Atoi ''255'' = (255, None)" 
  by (simp add: atoi_eval)

lemma Atoi_x: "Atoi ''10 20 30'' = (0, Some ErrSyntax)" 
  by (simp add: atoi_eval)

lemma zero_file_lines:
  "line_of zero_file 0 = ''P1''" "line_of zero_file (Suc 0) = ''0 0''"
  by (simp_all add: zero_file_def scan_eval)

lemma bad_height_file_lines:
  "line_of bad_height_file 0 = ''P4''" "line_of bad_height_file (Suc 0) = ''2 x''"
  by (simp_all add: bad_height_file_def scan_eval)

lemma three_dims_file_lines:
  "line_of three_dims_file 0 = ''P1''" "line_of three_dims_file (Suc 0) = ''2 2 2''"
  by (simp_all add: three_dims_file_def scan_eval)

lemma Fields_examples:
  "Fields ''0 0'' = [''0'', ''0'']" "Fields ''2 x'' = [''2'', ''x'']"
  "Fields ''2 2 2'' = [''2'', ''2'', ''2'']" "Fields ''2 1'' = [''2'', ''1'']"
  "Fields ''3 1'' = [''3'', ''1'']"
  by (simp_all add: fields_eval)

lemma Atoi_examples:
  "Atoi ''0'' = (0, None)" "Atoi ''1'' = (1, None)" "Atoi ''3'' = (3, None)"
  "Atoi ''7'' = (7, None)" "Atoi ''9'' = (9, None)" "Atoi ''x'' = (0, Some ErrSyntax)"
  by (simp_all add: atoi_eval)

lemma ReadPBM_zero_file:
  "ReadPBM (Inr zero_file) = Inr \<lparr>data = [], width = 0, height = 0, magicNumber = ''P1''\<rparr>"
  using ReadPBM_result [of zero_file "''0''" "''0''" 0 0 "\<lambda>i. []"]
  by (simp add: zero_file_lines Fields_examples Atoi_examples maxAlloc_def)

lemma ReadPBM_bits_file:
  "ReadPBM (Inr bits_file) =
     Inr \<lparr>data = [[True, False], [False, True]], width = 2, height = 2, magicNumber = ''P1''\<rparr>"
proof -
  have r0: "parseP1Line ''10'' (int 2) = Inr [True, False]"
    using parseP1Line_bytes [of "''10''" 2] by (simp add: numeral_2_eq_2 maxAlloc_def)
  have r1: "parseP1Line ''01'' (int 2) = Inr [False, True]"
    using parseP1Line_bytes [of "''01''" 2] by (simp add: numeral_2_eq_2 maxAlloc_def)
  have rows: "(if line_of bits_file 0 = ''P1'' then parseP1Line (line_of bits_file (2 + i)) 2
       else parseP4Line (line_of bits_file (2 + i)) 2)
       = Inr ((\<lambda>i. if i = 0 then [True, False] else [False, True]) i)" if "i < 2" for i
  proof -
    from that have "i = 0 \<or> i = 1" by auto
    then show ?thesis
      using r0 r1 by (auto simp: bits_file_lines)
  qed
  show ?thesis
    using ReadPBM_result [of bits_file "''2''" "''2''" 2 2
        "\<lambda>i. if i = 0 then [True, False] else [False, True]", OF _ _ _ _ rows]
    by (simp add: bits_file_lines Fields_2_2 Atoi_2 numeral_2_eq_2 maxAlloc_def)
qed

section \<open>The dimensions line\<close>

text \<open>
  C4, as the code has it. On a stream whose first line is a bitmap magic number, \<open>ReadPBM\<close>
  returns the error \<open>Invalid dimensions\<close> when the second line does not split into exactly
  two fields, \<open>Invalid width\<close> or \<open>Invalid height\<close> when \<^verbatim>\<open>strconv.Atoi\<close> rejects the first or the
  second field. It does not ask for positive numbers: when it succeeds, the two fields are
  integers for \<^verbatim>\<open>Atoi\<close>, they are the stored \<open>width\<close> and \<open>height\<close>, and the height is not
  negative.
\<close>

theorem ReadPBM_dimensions_line:
  assumes "line_of file 0 = ''P1'' \<or> line_of file 0 = ''P4''"
  shows "(length (Fields (line_of file 1)) \<noteq> 2 \<longrightarrow>
            ReadPBM (Inr file) = Inl (New ''Invalid dimensions'')) \<and>
         (length (Fields (line_of file 1)) = 2 \<and>
          snd (Atoi (Fields (line_of file 1) ! 0)) \<noteq> None \<longrightarrow>
            ReadPBM (Inr file) = Inl (New ''Invalid width'')) \<and>
         (length (Fields (line_of file 1)) = 2 \<and>
          snd (Atoi (Fields (line_of file 1) ! 0)) = None \<and>
          snd (Atoi (Fields (line_of file 1) ! 1)) \<noteq> None \<longrightarrow>
            ReadPBM (Inr file) = Inl (New ''Invalid height'')) \<and>
         (\<forall>pbm. ReadPBM (Inr file) = Inr pbm \<longrightarrow>
            length (Fields (line_of file 1)) = 2 \<and>
            Atoi (Fields (line_of file 1) ! 0) = (width pbm, None) \<and>
            Atoi (Fields (line_of file 1) ! 1) = (height pbm, None) \<and>
            0 \<le> height pbm)"
  using ReadPBM_bad_count [OF assms] ReadPBM_bad_width [OF assms] ReadPBM_bad_height [OF assms]
    ReadPBM_success_header [of "file"]
  by blast

text \<open>
  Three fields, a second field that is no number, and the well-formed \<open>bits_file\<close>.
\<close>

theorem ReadPBM_dimensions_line_witness:
  "line_of three_dims_file 0 = ''P1'' \<and>
   ReadPBM (Inr three_dims_file) = Inl (New ''Invalid dimensions'') \<and>
   line_of bad_height_file 0 = ''P4'' \<and>
   ReadPBM (Inr bad_height_file) = Inl (New ''Invalid height'') \<and>
   line_of bits_file 0 = ''P1'' \<and>
   ReadPBM (Inr bits_file) =
     Inr \<lparr>data = [[True, False], [False, True]], width = 2, height = 2, magicNumber = ''P1''\<rparr> \<and>
   Atoi (Fields (line_of bits_file 1) ! 0) = (2, None) \<and>
   Atoi (Fields (line_of bits_file 1) ! 1) = (2, None)"
proof -
  have 1: "ReadPBM (Inr three_dims_file) = Inl (New ''Invalid dimensions'')"
    using ReadPBM_dimensions_line [of three_dims_file]
    by (simp add: three_dims_file_lines Fields_examples)
  have 2: "ReadPBM (Inr bad_height_file) = Inl (New ''Invalid height'')"
    using ReadPBM_dimensions_line [of bad_height_file]
    by (simp add: bad_height_file_lines Fields_examples Atoi_examples Atoi_2)
  have 3: "Atoi (Fields (line_of bits_file 1) ! 0) = (2, None) \<and>
           Atoi (Fields (line_of bits_file 1) ! 1) = (2, None)"
    using ReadPBM_dimensions_line [of bits_file] ReadPBM_bits_file
    by (simp add: bits_file_lines)
  show ?thesis
    using 1 2 3 ReadPBM_bits_file
    by (simp add: three_dims_file_lines bad_height_file_lines bits_file_lines)
qed

text \<open>
  C4 as stated fails: the dimensions \<open>0 0\<close> are not positive, and \<open>ReadPBM\<close> succeeds.
\<close>

theorem ReadPBM_accepts_zero_dimensions:
  "Fields (line_of zero_file 1) = [''0'', ''0''] \<and>
   ReadPBM (Inr zero_file) = Inr \<lparr>data = [], width = 0, height = 0, magicNumber = ''P1''\<rparr>"
  using ReadPBM_zero_file by (simp add: zero_file_lines Fields_examples)

lemma ReadPBM_first_row_fails:
  assumes magic: "line_of file 0 = ''P1'' \<or> line_of file 0 = ''P4''"
    and dims: "Fields (line_of file 1) = [ws, hs]"
    and w: "Atoi ws = (w, None)" and h: "Atoi hs = (h, None)" and h0: "0 < h"
    and ha: "size_slice * h \<le> maxAlloc"
    and row: "(if line_of file 0 = ''P1'' then parseP1Line (line_of file 2) w
               else parseP4Line (line_of file 2) w) = Inl e"
  shows "ReadPBM (Inr file) = Inl e"
proof -
  define s0 where "s0 = NewScanner file"
  define magic' where "magic' = line_of file 0"
  let ?rows = "\<lambda>i (scanner, data').
            let scanner = snd (Scan scanner);
                line = Text scanner
            in and_then
                 (if magic' = ''P1'' then parseP1Line line w
                  else parseP4Line line w) (\<lambda>row.
               and_then (store data' i row) (\<lambda>data'.
               Inr (scanner, data')))"
  have e1: "snd (Scan s0) = scanned s0 (Suc 0)"
    and e2: "snd (Scan (scanned s0 (Suc 0))) = scanned s0 (Suc (Suc 0))"
    by (simp_all add: scanned_Suc scanned_0)
  have t1: "Text (scanned s0 (Suc 0)) = magic'"
    and t2: "Fields (Text (scanned s0 (Suc (Suc 0)))) = [ws, hs]"
    using dims by (simp_all add: s0_def line_of_def magic'_def)
  have m: "magic' = ''P1'' \<or> magic' = ''P4''"
    using magic by (simp add: magic'_def)
  have mk: "make_slice size_slice h ([] :: bool list) = Inr (replicate (nat h) [])"
    using h0 ha by (simp add: make_slice_def)
  have r: "(if magic' = ''P1''
            then parseP1Line (Text (snd (Scan (scanned s0 (Suc (Suc 0)))))) w
            else parseP4Line (Text (snd (Scan (scanned s0 (Suc (Suc 0)))))) w) = Inl e"
    using row
    by (cases "line_of file 0 = ''P1''")
       (simp_all add: s0_def line_of_def magic'_def scanned_Suc numeral_2_eq_2)
  have "ReadPBM (Inr file) =
     and_then (for_each (count_up h) ?rows (scanned s0 (Suc (Suc 0)), replicate (nat h) []))
       (\<lambda>(scanner, data').
          Inr \<lparr>data = data', width = w, height = h, magicNumber = magic'\<rparr>)"
    using m
    by (auto simp add: ReadPBM_def Let_def e1 e2 t1 t2 and_then_Inr w h mk
          simp flip: s0_def)
  moreover have "?rows 0 (scanned s0 (Suc (Suc 0)), replicate (nat h) []) = Inl e"
    using r by (cases "magic' = ''P1''") (simp_all add: Let_def and_then_Inl)
  ultimately show ?thesis
    by (simp only: for_each_first_fails [OF h0] and_then_Inl)
qed

lemma spaced_file_lines:
  "line_of spaced_file 0 = ''P1''" "line_of spaced_file 1 = ''2 2''"
  "line_of spaced_file (Suc 0) = ''2 2''" "line_of spaced_file 2 = ''1 0''"
  by (simp_all add: spaced_file_def scan_eval)

lemma one_line_gray_file_lines:
  "line_of one_line_gray_file 0 = ''P2''" "line_of one_line_gray_file (Suc 0) = ''3 1''"
  "line_of one_line_gray_file 2 = ''255''" "line_of one_line_gray_file 3 = ''10 20 30''"
  "at_end (scanned (NewScanner one_line_gray_file) 4)"
  by (simp_all add: one_line_gray_file_def scan_eval)

lemma gray_file_lines:
  "line_of gray_file 0 = ''P2''" "line_of gray_file (Suc 0) = ''2 1''"
  "line_of gray_file 2 = ''255''" "line_of gray_file 3 = ''7''" "line_of gray_file 4 = ''9''"
  "at_end (scanned (NewScanner gray_file) 5)"
  by (simp_all add: gray_file_def scan_eval)

lemma short_bits_file_lines:
  "line_of short_bits_file 0 = ''P1''" "line_of short_bits_file (Suc 0) = ''2 2''"
  "line_of short_bits_file 2 = ''10''" "line_of short_bits_file (Suc (Suc 0)) = ''10''"
  "at_end (scanned (NewScanner short_bits_file) 3)"
  by (simp_all add: short_bits_file_def scan_eval)

lemma upt_2: "[0..<2] = [0, Suc 0]"
  by (simp add: numeral_2_eq_2)

lemma upt_3: "[0..<3] = [0, Suc 0, 2]"
  by (simp add: numeral_3_eq_3)

lemma ReadPGM_gray_file:
  "ReadPGM (Inr gray_file) =
     Inr \<lparr>data = [[7, 9]], width = 2, height = 1, magicNumber = ''P2'', max' = 255\<rparr>"
  using ReadPGM_result [of gray_file 2 1]
  by (simp add: gray_file_lines Fields_examples Atoi_examples Atoi_2 Atoi_255 upt_2 maxAlloc_def)

lemma ReadPGM_short_gray_file:
  "ReadPGM (Inr short_gray_file) =
     Inr \<lparr>data = [[7, 0]], width = 2, height = 1, magicNumber = ''P2'', max' = 255\<rparr>"
  using ReadPGM_result [of short_gray_file 2 1]
    line_of_past_end [OF short_gray_file_lines(5), of 4]
  by (simp add: short_gray_file_lines Fields_examples Atoi_examples Atoi_2 Atoi_255 upt_2
        Atoi_empty maxAlloc_def)

lemma ReadPGM_one_line_gray_file:
  "ReadPGM (Inr one_line_gray_file) =
     Inr \<lparr>data = [[0, 0, 0]], width = 3, height = 1, magicNumber = ''P2'', max' = 255\<rparr>"
  using ReadPGM_result [of one_line_gray_file 3 1]
    line_of_past_end [OF one_line_gray_file_lines(5), of 4]
    line_of_past_end [OF one_line_gray_file_lines(5), of 5]
  by (simp add: one_line_gray_file_lines Fields_examples Atoi_examples Atoi_255 Atoi_x upt_3
        Atoi_empty maxAlloc_def)

lemma ReadPBM_spaced_file: "ReadPBM (Inr spaced_file) = Inl PanicIndex"
proof -
  have "parseP1Line ''1 0'' 2 = Inl PanicIndex"
    by (simp add: parseP1Line_def make_slice_def and_then_def range_string_def decoderune_def
          byte_def store_def maxAlloc_def)
  then show ?thesis
    using ReadPBM_first_row_fails [of spaced_file "''2''" "''2''" 2 2 PanicIndex]
    by (simp add: spaced_file_lines Fields_2_2 Atoi_2 maxAlloc_def)
qed

lemma ReadPBM_short_bits_file:
  "ReadPBM (Inr short_bits_file) =
     Inr \<lparr>data = [[True, False], [False, False]], width = 2, height = 2, magicNumber = ''P1''\<rparr>"
proof -
  have r0: "parseP1Line ''10'' (int 2) = Inr [True, False]"
    using parseP1Line_bytes [of "''10''" 2] by (simp add: numeral_2_eq_2 maxAlloc_def)
  have r1: "parseP1Line [] (int 2) = Inr [False, False]"
    using parseP1Line_empty [of 2] by (simp add: numeral_2_eq_2 maxAlloc_def)
  have l3: "line_of short_bits_file (Suc (Suc (Suc 0))) = []"
    using line_of_past_end [OF short_bits_file_lines(5), of 3] by (simp add: numeral_3_eq_3)
  have rows: "(if line_of short_bits_file 0 = ''P1''
       then parseP1Line (line_of short_bits_file (2 + i)) 2
       else parseP4Line (line_of short_bits_file (2 + i)) 2)
       = Inr ((\<lambda>i. if i = 0 then [True, False] else [False, False]) i)" if "i < 2" for i
  proof -
    from that have "i = 0 \<or> i = 1" by auto
    then show ?thesis
      using r0 r1 by (auto simp: short_bits_file_lines l3)
  qed
  show ?thesis
    using ReadPBM_result [of short_bits_file "''2''" "''2''" 2 2
        "\<lambda>i. if i = 0 then [True, False] else [False, False]", OF _ _ _ _ rows]
    by (simp add: short_bits_file_lines Fields_2_2 Atoi_2 numeral_2_eq_2 maxAlloc_def)
qed

section \<open>Rotating an image read from a file\<close>






section \<open>The pixel decoder of the ASCII bitmap format\<close>

lemma saved_file_lines:
  "line_of saved_file 0 = ''P1''" "line_of saved_file (Suc 0) = ''2 2''"
  "line_of saved_file 2 = ''1 0 ''"
  by (simp_all add: saved_file_def scan_eval)

lemma PBM_Save_checker_pbm: "PBM_Save checker_pbm None = Inr saved_file"
  by (simp add: PBM_Save_def checker_pbm_def saved_file_def Itoa_digit)

lemma ReadPBM_saved_file: "ReadPBM (Inr saved_file) = Inl PanicIndex"
proof -
  have "parseP1Line ''1 0 '' 2 = Inl PanicIndex"
    by (simp add: parseP1Line_def make_slice_def and_then_def range_string_def decoderune_def
          byte_def store_def maxAlloc_def)
  then show ?thesis
    using ReadPBM_first_row_fails [of saved_file "''2''" "''2''" 2 2 PanicIndex]
    by (simp add: saved_file_lines Fields_2_2 Atoi_2 maxAlloc_def)
qed

text \<open>
  C2 fails on its own scenario, and the code is at odds with itself. On the stream
  \<open>spaced_file\<close>, the 2 by 2 bitmap of the scenario, the first row line \<open>1 0\<close> has three
  characters for a width of 2: \<open>parseP1Line\<close> stores a pixel at the offset of every character,
  the blank included, and the third store is out of range, so \<open>ReadPBM\<close> panics. \<open>PBM_Save\<close>
  writes a blank after every pixel of a \<open>P1\<close> image: the file \<open>saved_file\<close> that it writes for
  the same bitmap makes \<open>ReadPBM\<close> panic likewise. On a grayscale stream whose three pixels
  stand on one line, separated by blanks, \<open>ReadPGM\<close> reads no pixel value at all.
\<close>

theorem ReadPBM_panics_on_spaced_rows:
  "ReadPBM (Inr spaced_file) = Inl PanicIndex \<and>
   PBM_Save checker_pbm None = Inr saved_file \<and>
   ReadPBM (Inr saved_file) = Inl PanicIndex \<and>
   ReadPGM (Inr one_line_gray_file) =
     Inr \<lparr>data = [[0, 0, 0]], width = 3, height = 1, magicNumber = ''P2'', max' = 255\<rparr>"
  using ReadPBM_spaced_file PBM_Save_checker_pbm ReadPBM_saved_file ReadPGM_one_line_gray_file
  by simp

section \<open>Streams that end early\<close>

lemma ReadPGM_padded:
  assumes magic: "line_of file 0 = ''P2'' \<or> line_of file 0 = ''P5''"
    and dims: "2 \<le> length (Fields (line_of file 1))"
    and w: "fst (Atoi (Fields (line_of file 1) ! 0)) = int w"
    and h: "fst (Atoi (Fields (line_of file 1) ! 1)) = int h"
    and wa: "size_uint8 * int w \<le> maxAlloc" and ha: "size_slice * int h \<le> maxAlloc"
    and e: "at_end (scanned (NewScanner file) (3 + k))"
  shows "\<exists>pgm. ReadPGM (Inr file) = Inr pgm \<and> width pgm = int w \<and> height pgm = int h \<and>
           (\<forall>i < h. \<forall>j < w. k \<le> i * w + j \<longrightarrow> data pgm ! i ! j = 0)"
proof -
  have "word_of_int (fst (Atoi (line_of file (3 + (i * w + j))))) = (0 :: uint8)"
    if "k \<le> i * w + j" for i j
    using line_of_past_end [OF e, of "3 + (i * w + j)"] that by (simp add: Atoi_empty)
  then show ?thesis
    using ReadPGM_result [OF magic dims w h wa ha] by simp
qed

lemma ReadPBM_padded:
  assumes magic: "line_of file 0 = ''P1'' \<or> line_of file 0 = ''P4''"
    and dims: "Fields (line_of file 1) = [ws, hs]"
    and w: "Atoi ws = (int w, None)" and h: "Atoi hs = (int h, None)"
    and wa: "size_bool * int w \<le> maxAlloc" and ha: "size_slice * int h \<le> maxAlloc"
    and e: "at_end (scanned (NewScanner file) (2 + k))"
    and rows: "\<forall>i < k. i < h \<longrightarrow>
       (\<exists>row. (if line_of file 0 = ''P1'' then parseP1Line (line_of file (2 + i)) (int w)
               else parseP4Line (line_of file (2 + i)) (int w)) = Inr row)"
  shows "\<exists>pbm. ReadPBM (Inr file) = Inr pbm \<and> width pbm = int w \<and> height pbm = int h \<and>
           length (data pbm) = h \<and>
           (\<forall>i < h. k \<le> i \<longrightarrow>
              data pbm ! i = (if line_of file 0 = ''P1'' then replicate w False else []))"
proof -
  define parse where "parse = (\<lambda>i. if line_of file 0 = ''P1''
       then parseP1Line (line_of file (2 + i)) (int w)
       else parseP4Line (line_of file (2 + i)) (int w))"
  define pad where "pad = (if line_of file 0 = ''P1'' then replicate w False else [])"
  have "\<forall>i. \<exists>row. i < k \<and> i < h \<longrightarrow> parse i = Inr row"
    using rows by (auto simp: parse_def)
  then obtain f where f: "\<And>i. i < k \<Longrightarrow> i < h \<Longrightarrow> parse i = Inr (f i)"
    by metis
  have late: "parse i = Inr pad" if "k \<le> i" for i
  proof -
    have "line_of file (2 + i) = []"
      using line_of_past_end [OF e, of "2 + i"] that by simp
    then show ?thesis
      using wa by (simp add: parse_def pad_def parseP1Line_empty parseP4Line_empty)
  qed
  have "parse i = Inr (if i < k then f i else pad)" if "i < h" for i
    using f [of i] late [of i] that by (cases "i < k") simp_all
  then have "ReadPBM (Inr file) =
     Inr \<lparr>data = map (\<lambda>i. if i < k then f i else pad) [0..<h], width = int w, height = int h,
          magicNumber = line_of file 0\<rparr>"
    using ReadPBM_result [OF magic dims w h _ ha, of "\<lambda>i. if i < k then f i else pad"]
    by (simp add: parse_def)
  then show ?thesis by (simp add: pad_def)
qed

text \<open>
  C3, as the code has it. No decoder has an error for a stream that ends early: the
  result of \<^verbatim>\<open>Scan\<close> is never looked at, and past the end of the input every line is empty.
  With a header as \<open>ReadPGM\<close> needs it, whose dimensions are within the allocation limit (a
  row of \<open>width\<close> pixels, a slice of \<open>height\<close> rows), \<open>ReadPGM\<close> succeeds when the input is
  used up after \<open>k\<close> pixel lines, whatever \<open>k\<close>, and every pixel from the \<open>k\<close>-th on (in
  row-major order) is 0. With a valid header and such dimensions, \<open>ReadPBM\<close> succeeds when
  the input is used up after \<open>k\<close> row lines that decode, and every row from the \<open>k\<close>-th on
  is all false (\<open>P1\<close>) or empty (\<open>P4\<close>).
\<close>

theorem early_end_of_stream_is_padded:
  "((line_of file 0 = ''P2'' \<or> line_of file 0 = ''P5'') \<and>
    2 \<le> length (Fields (line_of file 1)) \<and>
    fst (Atoi (Fields (line_of file 1) ! 0)) = int w \<and>
    fst (Atoi (Fields (line_of file 1) ! 1)) = int h \<and>
    size_uint8 * int w \<le> maxAlloc \<and> size_slice * int h \<le> maxAlloc \<and>
    at_end (scanned (NewScanner file) (3 + k)) \<longrightarrow>
    (\<exists>pgm. ReadPGM (Inr file) = Inr pgm \<and> width pgm = int w \<and> height pgm = int h \<and>
       (\<forall>i < h. \<forall>j < w. k \<le> i * w + j \<longrightarrow> data pgm ! i ! j = 0))) \<and>
   ((line_of file' 0 = ''P1'' \<or> line_of file' 0 = ''P4'') \<and>
    Fields (line_of file' 1) = [ws, hs] \<and>
    Atoi ws = (int w', None) \<and> Atoi hs = (int h', None) \<and>
    size_bool * int w' \<le> maxAlloc \<and> size_slice * int h' \<le> maxAlloc \<and>
    at_end (scanned (NewScanner file') (2 + k')) \<and>
    (\<forall>i < k'. i < h' \<longrightarrow>
       (\<exists>row. (if line_of file' 0 = ''P1'' then parseP1Line (line_of file' (2 + i)) (int w')
               else parseP4Line (line_of file' (2 + i)) (int w')) = Inr row)) \<longrightarrow>
    (\<exists>pbm. ReadPBM (Inr file') = Inr pbm \<and> width pbm = int w' \<and> height pbm = int h' \<and>
       length (data pbm) = h' \<and>
       (\<forall>i < h'. k' \<le> i \<longrightarrow>
          data pbm ! i = (if line_of file' 0 = ''P1'' then replicate w' False else []))))"
  using ReadPGM_padded [of "file" w h k] ReadPBM_padded [of file' ws hs w' h' k']
  by blast

text \<open>
  The grayscale file \<open>gray_file\<close> has its \<open>2 * 1\<close> pixel lines and decodes;
  \<open>short_gray_file\<close> has one pixel line fewer and decodes too, its second pixel being 0.
  The bitmap file \<open>short_bits_file\<close> has one of its two rows; the second row is all false.
\<close>

theorem early_end_of_stream_is_padded_witness:
  "size_uint8 * int 2 \<le> maxAlloc \<and> size_slice * int 1 \<le> maxAlloc \<and>
   size_slice * int 2 \<le> maxAlloc \<and>
   at_end (scanned (NewScanner gray_file) (3 + 2)) \<and>
   ReadPGM (Inr gray_file) =
     Inr \<lparr>data = [[7, 9]], width = 2, height = 1, magicNumber = ''P2'', max' = 255\<rparr> \<and>
   at_end (scanned (NewScanner short_gray_file) (3 + 1)) \<and>
   (\<exists>pgm. ReadPGM (Inr short_gray_file) = Inr pgm \<and> width pgm = 2 \<and> height pgm = 1 \<and>
      data pgm ! 0 ! 1 = 0) \<and>
   ReadPGM (Inr short_gray_file) =
     Inr \<lparr>data = [[7, 0]], width = 2, height = 1, magicNumber = ''P2'', max' = 255\<rparr> \<and>
   at_end (scanned (NewScanner short_bits_file) (2 + 1)) \<and>
   (\<exists>pbm. ReadPBM (Inr short_bits_file) = Inr pbm \<and> length (data pbm) = 2 \<and>
      data pbm ! 1 = [False, False])"
proof -
  have g: "at_end (scanned (NewScanner gray_file) (3 + 2))"
    and s: "at_end (scanned (NewScanner short_gray_file) (3 + 1))"
    and b: "at_end (scanned (NewScanner short_bits_file) (2 + 1))"
    using gray_file_lines(6) short_gray_file_lines(5) short_bits_file_lines(5) by simp_all
  have "\<exists>pgm. ReadPGM (Inr short_gray_file) = Inr pgm \<and> width pgm = int 2 \<and> height pgm = int 1 \<and>
       (\<forall>i < 1. \<forall>j < 2. 1 \<le> i * 2 + j \<longrightarrow> data pgm ! i ! j = 0)"
    using early_end_of_stream_is_padded [of short_gray_file 2 1 1, THEN conjunct1] s
    by (simp add: short_gray_file_lines Fields_examples Atoi_examples Atoi_2 maxAlloc_def)
  then have 1: "\<exists>pgm. ReadPGM (Inr short_gray_file) = Inr pgm \<and> width pgm = 2 \<and> height pgm = 1 \<and>
      data pgm ! 0 ! 1 = 0"
    by auto
  have p: "parseP1Line ''10'' (int 2) = Inr [True, False]"
    using parseP1Line_bytes [of "''10''" 2] by (simp add: numeral_2_eq_2 maxAlloc_def)
  have "\<exists>pbm. ReadPBM (Inr short_bits_file) = Inr pbm \<and> width pbm = int 2 \<and> height pbm = int 2 \<and>
       length (data pbm) = 2 \<and>
       (\<forall>i < 2. 1 \<le> i \<longrightarrow>
          data pbm ! i = (if line_of short_bits_file 0 = ''P1'' then replicate 2 False else []))"
    using early_end_of_stream_is_padded [of _ _ _ _ short_bits_file "''2''" "''2''" 2 2 1,
        THEN conjunct2] b p
    by (simp add: short_bits_file_lines Fields_2_2 Atoi_2 maxAlloc_def)
  then have 2: "\<exists>pbm. ReadPBM (Inr short_bits_file) = Inr pbm \<and> length (data pbm) = 2 \<and>
      data pbm ! 1 = [False, False]"
    by (auto simp: short_bits_file_lines numeral_2_eq_2)
  have a: "size_uint8 * int 2 \<le> maxAlloc \<and> size_slice * int 1 \<le> maxAlloc \<and>
           size_slice * int 2 \<le> maxAlloc"
    by (simp add: maxAlloc_def)
  show ?thesis
    using a g s b 1 2 ReadPGM_gray_file ReadPGM_short_gray_file by blast
qed

text \<open>
  C3 as stated fails: \<open>short_gray_file\<close> announces 2 by 1 pixels and has one pixel line,
  \<open>short_bits_file\<close> announces 2 rows and has one; both decode, to a padded image, and no
  error is returned.
\<close>

theorem truncated_streams_decode:
  "ReadPGM (Inr short_gray_file) =
     Inr \<lparr>data = [[7, 0]], width = 2, height = 1, magicNumber = ''P2'', max' = 255\<rparr> \<and>
   ReadPBM (Inr short_bits_file) =
     Inr \<lparr>data = [[True, False], [False, False]], width = 2, height = 2, magicNumber = ''P1''\<rparr>"
  using ReadPGM_short_gray_file ReadPBM_short_bits_file by simp

end
